theory Spec2Isabelle
  imports Main "HOL-Library.Product_Lexorder" "HOL-Library.List_Lexorder"
    "HOL-Library.Option_ord"
begin

section \<open>SIL values, instructions and the oracles of the host compiler\<close>

text \<open>
  The pass of \<^verbatim>\<open>lib/SILOptimizer/Mandatory/SendNonSendable.cpp\<close> works on SIL. A SIL
  value and a SIL instruction are pointers there; here they are natural numbers (the
  identity of the node). What the pass asks of the host compiler (types, access storage,
  underlying objects, the AST node of a location) is a field of \<open>SILEnv\<close>.
\<close>

type_synonym SILValue = nat

datatype SILInstructionKind =
    AllocBoxInst | AllocRefInst | AllocStackInst | LiteralInst
  | AddressToPointerInst | BeginAccessInst | BeginBorrowInst | CopyValueInst
  | ConvertEscapeToNoEscapeInst | ConvertFunctionInst | IndexAddrInst
  | InitExistentialAddrInst | LoadInst | LoadBorrowInst | LoadWeakInst
  | PointerToAddressInst | RefElementAddrInst | StrongCopyUnownedValueInst
  | TailAddrInst | UncheckedAddrCastInst | UncheckedOwnershipConversionInst
  | UncheckedRefCastInst
  | CopyAddrInst | ExplicitCopyAddrInst | StoreInst | StoreBorrowInst | StoreWeakInst
  | ApplyInst | TryApplyInst | PartialApplyInst | BuiltinInst
  | DestructureTupleInst | ReturnInst
  | ClassMethodInst | DeallocBoxInst | DebugValueInst | DestroyAddrInst
  | DestroyValueInst | EndAccessInst | EndBorrowInst | EndLifetimeInst
  | HopToExecutorInst | MetatypeInst | DeallocStackInst
  | FunctionRefInst | OtherInst

record SILInstruction =
  instId :: nat
  instKind :: SILInstructionKind
  getOperandValues :: "SILValue list"
  getResults :: "SILValue list"
  crossesIsolation :: bool
  \<comment> \<open>\<open>crossesIsolation\<close>: the instruction's location is an \<open>ApplyExpr\<close> whose
      \<open>getIsolationCrossing()\<close> has a value\<close>

record AccessStorage =
  getRoot :: SILValue
  storageUniquelyIdentified :: bool

record SILEnv =
  isAddress :: "SILValue \<Rightarrow> bool"
  getUnderlyingObject :: "SILValue \<Rightarrow> SILValue"
  getAccessStorageFromAddr :: "SILValue \<Rightarrow> AccessStorage option"
  \<comment> \<open>\<open>AccessStorage::compute\<close> with the look-through of the source; \<open>None\<close> is an
      invalid storage\<close>
  definingInstKind :: "SILValue \<Rightarrow> SILInstructionKind option"
  typeLacksSendable :: "SILValue \<Rightarrow> bool"
  \<comment> \<open>\<open>isNonSendableType(value->getType())\<close>: a builtin native object, or a type whose
      conformance to \<open>Sendable\<close> is missing\<close>

datatype error = AssertionFailure | ResultIndexOutOfRange | OperandIndexOutOfRange

definition bindE :: "error + 'a \<Rightarrow> ('a \<Rightarrow> error + 'b) \<Rightarrow> error + 'b" where
  "bindE m f = (case m of Inl e \<Rightarrow> Inl e | Inr x \<Rightarrow> f x)"

definition getResult :: "SILInstruction \<Rightarrow> nat \<Rightarrow> error + SILValue" where
  "getResult inst i =
     (if i < length (getResults inst) then Inr (getResults inst ! i)
      else Inl ResultIndexOutOfRange)"

definition getOperand :: "SILInstruction \<Rightarrow> nat \<Rightarrow> error + SILValue" where
  "getOperand inst i =
     (if i < length (getOperandValues inst) then Inr (getOperandValues inst ! i)
      else Inl OperandIndexOutOfRange)"

definition SILApplyCrossesIsolation :: "SILInstruction \<Rightarrow> bool" where
  "SILApplyCrossesIsolation inst = crossesIsolation inst"

section \<open>PartitionOp\<close>

text \<open>
  Modelled from the spec: \<open>PartitionOp\<close> and \<open>PartitionOpKind\<close> are declared in
  \<^verbatim>\<open>swift/SILOptimizer/Utils/PartitionUtils.h\<close>, which is not among the sources. The
  spec gives a tagged operation, one of AssignFresh(id), Assign(dst, src), Merge(a, b),
  Consume(id), Require(id), each tagged with the instruction it comes from. The
  instruction is optional: the tracer builds an \<open>AssignFresh\<close> that has none.
\<close>

datatype PartitionOpKind = AssignKind | AssignFreshKind | ConsumeKind | MergeKind | RequireKind

datatype PartitionOp =
    AssignFresh nat "nat option"
  | Assign nat nat "nat option"
  | Merge nat nat "nat option"
  | Consume nat "nat option"
  | Require nat "nat option"

fun getKind :: "PartitionOp \<Rightarrow> PartitionOpKind" where
  "getKind (AssignFresh v i) = AssignFreshKind"
| "getKind (Assign d s i) = AssignKind"
| "getKind (Merge a b i) = MergeKind"
| "getKind (Consume v i) = ConsumeKind"
| "getKind (Require v i) = RequireKind"

fun getSourceInst :: "PartitionOp \<Rightarrow> nat option" where
  "getSourceInst (AssignFresh v i) = i"
| "getSourceInst (Assign d s i) = i"
| "getSourceInst (Merge a b i) = i"
| "getSourceInst (Consume v i) = i"
| "getSourceInst (Require v i) = i"

text \<open>
  Modelled from the spec: \<open>operator<\<close> of \<open>PartitionOp\<close> is in the same missing header.
  The spec asks for a total ordering that is stable within one run and calls it an
  implementation detail. The order taken here compares the kind, then the operands, then
  the instruction. The accumulator below is written for any linear order, so nothing
  proved about it rests on this choice.
\<close>

fun kindIndex :: "PartitionOpKind \<Rightarrow> nat" where
  "kindIndex AssignKind = 0"
| "kindIndex AssignFreshKind = 1"
| "kindIndex ConsumeKind = 2"
| "kindIndex MergeKind = 3"
| "kindIndex RequireKind = 4"

fun getOpArgs :: "PartitionOp \<Rightarrow> nat list" where
  "getOpArgs (AssignFresh v i) = [v]"
| "getOpArgs (Assign d s i) = [d, s]"
| "getOpArgs (Merge a b i) = [a, b]"
| "getOpArgs (Consume v i) = [v]"
| "getOpArgs (Require v i) = [v]"

definition opKey :: "PartitionOp \<Rightarrow> nat \<times> nat list \<times> nat option" where
  "opKey op = (kindIndex (getKind op), getOpArgs op, getSourceInst op)"

lemma opKey_inject: "opKey a = opKey b \<Longrightarrow> a = b"
  by (cases a; cases b) (simp_all add: opKey_def)

instantiation PartitionOp :: linorder
begin

definition less_eq_PartitionOp :: "PartitionOp \<Rightarrow> PartitionOp \<Rightarrow> bool" where
  "less_eq_PartitionOp a b = (opKey a \<le> opKey b)"

definition less_PartitionOp :: "PartitionOp \<Rightarrow> PartitionOp \<Rightarrow> bool" where
  "less_PartitionOp a b = (opKey a < opKey b)"

instance
proof
  fix x y z :: PartitionOp
  show "(x < y) = (x \<le> y \<and> \<not> y \<le> x)"
    unfolding less_eq_PartitionOp_def less_PartitionOp_def by (rule less_le_not_le)
  show "x \<le> x"
    unfolding less_eq_PartitionOp_def by (rule order_refl)
  show "x \<le> y \<Longrightarrow> y \<le> z \<Longrightarrow> x \<le> z"
    unfolding less_eq_PartitionOp_def by (rule order_trans)
  show "x \<le> y \<Longrightarrow> y \<le> x \<Longrightarrow> x = y"
    unfolding less_eq_PartitionOp_def by (rule opKey_inject) (rule antisym)
  show "x \<le> y \<or> y \<le> x"
    unfolding less_eq_PartitionOp_def by (rule linear)
qed

end

section \<open>PartitionOpTranslator\<close>

record Translator =
  nodeIDMap :: "SILValue \<rightharpoonup> nat"
  nextNodeID :: nat
  capturedUIValues :: "SILValue set"
  currentInstruction :: "nat option"
  translationIndex :: int

definition simplifyVal :: "SILEnv \<Rightarrow> SILValue \<Rightarrow> SILValue" where
  "simplifyVal env val =
     (if \<not> isAddress env val then getUnderlyingObject env val
      else case getAccessStorageFromAddr env val of
             Some accessStorage \<Rightarrow> getRoot accessStorage
           | None \<Rightarrow> val)"

definition isNonSendable :: "SILEnv \<Rightarrow> SILValue \<Rightarrow> bool" where
  "isNonSendable env value0 =
     (let val = simplifyVal env value0 in
      if definingInstKind env val = Some ClassMethodInst
         \<or> definingInstKind env val = Some FunctionRefInst
      then False
      else typeLacksSendable env val)"

definition isUniquelyIdentified :: "SILEnv \<Rightarrow> Translator \<Rightarrow> SILValue \<Rightarrow> bool" where
  "isUniquelyIdentified env tr val0 =
     (let val = simplifyVal env val0 in
      if \<not> isAddress env val then False
      else case getAccessStorageFromAddr env val of
             Some accessStorage \<Rightarrow>
               storageUniquelyIdentified accessStorage
               \<and> simplifyVal env val \<notin> capturedUIValues tr
           | None \<Rightarrow> False)"

text \<open>
  \<open>nodeHasID\<close> and \<open>lookupNodeID\<close> assert that the value is non-Sendable; a failed
  assertion is the error \<open>AssertionFailure\<close>.
\<close>

definition nodeHasID :: "SILEnv \<Rightarrow> Translator \<Rightarrow> SILValue \<Rightarrow> error + bool" where
  "nodeHasID env tr value0 =
     (let val = simplifyVal env value0 in
      if \<not> isNonSendable env val then Inl AssertionFailure
      else Inr (nodeIDMap tr val \<noteq> None))"

definition lookupNodeID :: "SILEnv \<Rightarrow> Translator \<Rightarrow> SILValue \<Rightarrow> error + (nat \<times> Translator)" where
  "lookupNodeID env tr value0 =
     (let val = simplifyVal env value0 in
      if \<not> isNonSendable env val then Inl AssertionFailure
      else case nodeIDMap tr val of
             Some n \<Rightarrow> Inr (n, tr)
           | None \<Rightarrow>
               Inr (nextNodeID tr,
                    tr\<lparr>nodeIDMap := (nodeIDMap tr)(val \<mapsto> nextNodeID tr),
                       nextNodeID := nextNodeID tr + 1\<rparr>))"

definition assertE :: "error + bool \<Rightarrow> (error + 'a) \<Rightarrow> error + 'a" where
  "assertE c k = (case c of Inl e \<Rightarrow> Inl e | Inr b \<Rightarrow> if b then k else Inl AssertionFailure)"

text \<open>
  The five functions of the translator that build the operations of the current
  instruction. They are \<open>AssignFresh\<close>, \<open>Assign\<close>, \<open>Consume\<close>, \<open>Merge\<close> and \<open>Require\<close>
  in the source; the suffix keeps them apart from the constructors of \<open>PartitionOp\<close>.
  In \<open>Assign\<close> and \<open>Merge\<close> the source compares two calls of \<open>lookupNodeID\<close>; the left
  one is evaluated first here (after the assertion the right one never mints an ID, so
  the order does not show).
\<close>

definition AssignFreshT :: "SILEnv \<Rightarrow> SILValue \<Rightarrow> Translator \<Rightarrow> error + (PartitionOp list \<times> Translator)" where
  "AssignFreshT env val tr =
     bindE (lookupNodeID env tr val) (\<lambda>(n, tr1).
       Inr ([AssignFresh n (currentInstruction tr1)], tr1))"

definition AssignT :: "SILEnv \<Rightarrow> SILValue \<Rightarrow> SILValue \<Rightarrow> Translator \<Rightarrow> error + (PartitionOp list \<times> Translator)" where
  "AssignT env tgt src tr =
     assertE (nodeHasID env tr src)
       (bindE (lookupNodeID env tr tgt) (\<lambda>(t, tr1).
        bindE (lookupNodeID env tr1 src) (\<lambda>(s, tr2).
          if t = s then Inr ([], tr2)
          else
            bindE (lookupNodeID env tr2 tgt) (\<lambda>(t', tr3).
            bindE (lookupNodeID env tr3 src) (\<lambda>(s', tr4).
              Inr ([Assign t' s' (currentInstruction tr4)], tr4))))))"

definition ConsumeT :: "SILEnv \<Rightarrow> SILValue \<Rightarrow> Translator \<Rightarrow> error + (PartitionOp list \<times> Translator)" where
  "ConsumeT env val tr =
     assertE (nodeHasID env tr val)
       (bindE (lookupNodeID env tr val) (\<lambda>(n, tr1).
          Inr ([Consume n (currentInstruction tr1)], tr1)))"

definition MergeT :: "SILEnv \<Rightarrow> SILValue \<Rightarrow> SILValue \<Rightarrow> Translator \<Rightarrow> error + (PartitionOp list \<times> Translator)" where
  "MergeT env fst0 snd0 tr =
     assertE (bindE (nodeHasID env tr fst0) (\<lambda>a.
                if a then nodeHasID env tr snd0 else Inr False))
       (bindE (lookupNodeID env tr fst0) (\<lambda>(f, tr1).
        bindE (lookupNodeID env tr1 snd0) (\<lambda>(s, tr2).
          if f = s then Inr ([], tr2)
          else
            bindE (lookupNodeID env tr2 fst0) (\<lambda>(f', tr3).
            bindE (lookupNodeID env tr3 snd0) (\<lambda>(s', tr4).
              Inr ([Merge f' s' (currentInstruction tr4)], tr4))))))"

definition RequireT :: "SILEnv \<Rightarrow> SILValue \<Rightarrow> Translator \<Rightarrow> error + (PartitionOp list \<times> Translator)" where
  "RequireT env val tr =
     assertE (nodeHasID env tr val)
       (bindE (lookupNodeID env tr val) (\<lambda>(n, tr1).
          Inr ([Require n (currentInstruction tr1)], tr1)))"

text \<open>
  \<open>add_to_translation\<close> is the lambda of \<open>translateSILApply\<close> that appends the
  operations of one emitter to the vector \<open>translated\<close>.
\<close>

definition add_to_translation ::
  "(Translator \<Rightarrow> error + (PartitionOp list \<times> Translator))
   \<Rightarrow> PartitionOp list \<times> Translator \<Rightarrow> error + (PartitionOp list \<times> Translator)" where
  "add_to_translation emit acc =
     (case acc of (translated, tr) \<Rightarrow>
        bindE (emit tr) (\<lambda>(ops, tr1). Inr (translated @ ops, tr1)))"

fun consumeAll ::
  "SILEnv \<Rightarrow> SILValue list \<Rightarrow> PartitionOp list \<times> Translator
   \<Rightarrow> error + (PartitionOp list \<times> Translator)" where
  "consumeAll env [] acc = Inr acc"
| "consumeAll env (operand # rest) acc =
     bindE (add_to_translation (ConsumeT env operand) acc) (consumeAll env rest)"

text \<open>
  \<open>mergeAll\<close> is the loop \<open>for (i = 1; i < size; i++) Merge(at(i-1), at(i))\<close>: it
  walks the operands with the previous one in hand.
\<close>

fun mergeAll ::
  "SILEnv \<Rightarrow> SILValue \<Rightarrow> SILValue list \<Rightarrow> PartitionOp list \<times> Translator
   \<Rightarrow> error + (PartitionOp list \<times> Translator)" where
  "mergeAll env prev [] acc = Inr acc"
| "mergeAll env prev (operand # rest) acc =
     bindE (add_to_translation (MergeT env prev operand) acc) (mergeAll env operand rest)"

definition translateSILApply ::
  "SILEnv \<Rightarrow> Translator \<Rightarrow> SILInstruction \<Rightarrow> error + (PartitionOp list \<times> Translator)" where
  "translateSILApply env tr applyInst =
     (let nonSendableOperands = filter (isNonSendable env) (getOperandValues applyInst) in
      bindE (getResult applyInst 0) (\<lambda>res.
      let nonSendableResult = isNonSendable env res in
      if SILApplyCrossesIsolation applyInst then
        bindE (consumeAll env nonSendableOperands ([], tr)) (\<lambda>acc.
          if nonSendableResult then add_to_translation (AssignFreshT env res) acc
          else Inr acc)
      else if nonSendableOperands = [] then
        (if nonSendableResult then add_to_translation (AssignFreshT env res) ([], tr)
         else Inr ([], tr))
      else
        bindE (if length nonSendableOperands = 1
               then add_to_translation (RequireT env (hd nonSendableOperands)) ([], tr)
               else mergeAll env (hd nonSendableOperands) (tl nonSendableOperands) ([], tr))
          (\<lambda>acc.
            if nonSendableResult
            then add_to_translation (AssignT env res (hd nonSendableOperands)) acc
            else Inr acc)))"

definition translateSILAssign ::
  "SILEnv \<Rightarrow> SILValue \<Rightarrow> SILValue \<Rightarrow> Translator \<Rightarrow> error + (PartitionOp list \<times> Translator)" where
  "translateSILAssign env tgt src tr =
     (if \<not> isNonSendable env tgt then Inr ([], tr)
      else if isNonSendable env src then AssignT env tgt src tr
      else AssignFreshT env tgt tr)"

definition translateSILAssignFresh ::
  "SILEnv \<Rightarrow> SILValue \<Rightarrow> Translator \<Rightarrow> error + (PartitionOp list \<times> Translator)" where
  "translateSILAssignFresh env fresh tr =
     (if isNonSendable env fresh then AssignFreshT env fresh tr else Inr ([], tr))"

definition translateSILMerge ::
  "SILEnv \<Rightarrow> SILValue \<Rightarrow> SILValue \<Rightarrow> Translator \<Rightarrow> error + (PartitionOp list \<times> Translator)" where
  "translateSILMerge env fst0 snd0 tr =
     (if isNonSendable env fst0 \<and> isNonSendable env snd0 then MergeT env fst0 snd0 tr
      else Inr ([], tr))"

definition translateSILStore ::
  "SILEnv \<Rightarrow> SILValue \<Rightarrow> SILValue \<Rightarrow> Translator \<Rightarrow> error + (PartitionOp list \<times> Translator)" where
  "translateSILStore env tgt src tr =
     (if isUniquelyIdentified env tr tgt then translateSILAssign env tgt src tr
      else translateSILMerge env tgt src tr)"

definition translateSILRequire ::
  "SILEnv \<Rightarrow> SILValue \<Rightarrow> Translator \<Rightarrow> error + (PartitionOp list \<times> Translator)" where
  "translateSILRequire env val tr =
     (if isNonSendable env val then RequireT env val tr else Inr ([], tr))"

fun destructureAll ::
  "SILEnv \<Rightarrow> SILValue list \<Rightarrow> error + SILValue \<Rightarrow> PartitionOp list \<times> Translator
   \<Rightarrow> error + (PartitionOp list \<times> Translator)" where
  "destructureAll env [] operand0 acc = Inr acc"
| "destructureAll env (result # rest) operand0 acc =
     bindE operand0 (\<lambda>src.
     bindE (add_to_translation (translateSILAssign env result src) acc)
       (destructureAll env rest operand0))"

definition isApplyInst :: "SILInstruction \<Rightarrow> bool" where
  "isApplyInst inst =
     (instKind inst \<in> {ApplyInst, TryApplyInst, PartialApplyInst, BuiltinInst})"

definition translateSILInstruction ::
  "SILEnv \<Rightarrow> Translator \<Rightarrow> SILInstruction \<Rightarrow> error + (PartitionOp list \<times> Translator)" where
  "translateSILInstruction env tr0 instruction =
     (let tr = tr0\<lparr>translationIndex := translationIndex tr0 + 1,
                   currentInstruction := Some (instId instruction)\<rparr> in
      if instKind instruction \<in> {AllocBoxInst, AllocRefInst, AllocStackInst, LiteralInst} then
        bindE (getResult instruction 0) (\<lambda>r. translateSILAssignFresh env r tr)
      else if instKind instruction \<in>
          {AddressToPointerInst, BeginAccessInst, BeginBorrowInst, CopyValueInst,
           ConvertEscapeToNoEscapeInst, ConvertFunctionInst, IndexAddrInst,
           InitExistentialAddrInst, LoadInst, LoadBorrowInst, LoadWeakInst,
           PointerToAddressInst, RefElementAddrInst, StrongCopyUnownedValueInst,
           TailAddrInst, UncheckedAddrCastInst, UncheckedOwnershipConversionInst,
           UncheckedRefCastInst} then
        bindE (getResult instruction 0) (\<lambda>r.
        bindE (getOperand instruction 0) (\<lambda>operand.
          translateSILAssign env r operand tr))
      else if instKind instruction \<in>
          {CopyAddrInst, ExplicitCopyAddrInst, StoreInst, StoreBorrowInst, StoreWeakInst} then
        bindE (getOperand instruction 1) (\<lambda>tgt.
        bindE (getOperand instruction 0) (\<lambda>src.
          translateSILStore env tgt src tr))
      else if isApplyInst instruction then translateSILApply env tr instruction
      else if instKind instruction = DestructureTupleInst then
        destructureAll env (getResults instruction) (getOperand instruction 0) ([], tr)
      else if instKind instruction = ReturnInst then
        bindE (getOperand instruction 0) (\<lambda>operand. translateSILRequire env operand tr)
      else Inr ([], tr))"

fun translateInstructions ::
  "SILEnv \<Rightarrow> SILInstruction list \<Rightarrow> PartitionOp list \<times> Translator
   \<Rightarrow> error + (PartitionOp list \<times> Translator)" where
  "translateInstructions env [] acc = Inr acc"
| "translateInstructions env (instruction # rest) acc =
     bindE (add_to_translation (\<lambda>tr. translateSILInstruction env tr instruction) acc)
       (translateInstructions env rest)"

definition translateSILBasicBlock ::
  "SILEnv \<Rightarrow> Translator \<Rightarrow> SILInstruction list \<Rightarrow> error + (PartitionOp list \<times> Translator)" where
  "translateSILBasicBlock env tr basicBlock = translateInstructions env basicBlock ([], tr)"

section \<open>The function under analysis\<close>

text \<open>
  A basic block is a natural number. \<open>blockList\<close> is the block list of the function in
  its order, which is the order in which \<open>BasicBlockData\<close> iterates.
\<close>

record SILFunction =
  fnEnv :: SILEnv
  blockList :: "nat list"
  getEntryBlock :: nat
  blockInstructions :: "nat \<Rightarrow> SILInstruction list"
  getPredecessorBlocks :: "nat \<Rightarrow> nat list"
  getSuccessorBlocks :: "nat \<Rightarrow> nat list"
  getParent :: "nat \<Rightarrow> nat"
  \<comment> \<open>the block of an instruction\<close>
  locIsExpr :: "nat \<Rightarrow> bool"
  \<comment> \<open>the location of an instruction is an \<open>Expr\<close> of the AST\<close>
  getArguments :: "SILValue list"
  hasSelfParam :: bool
  getSelfArgument :: SILValue
  hasDeclContext :: bool
  hasDeferredSendableChecking :: bool
  hasSendableProtocol :: bool

fun captureOperands :: "SILEnv \<Rightarrow> SILValue list \<Rightarrow> Translator \<Rightarrow> Translator" where
  "captureOperands env [] tr = tr"
| "captureOperands env (val # rest) tr =
     captureOperands env rest
       (if isNonSendable env val \<and> isUniquelyIdentified env tr val
        then tr\<lparr>capturedUIValues := insert (simplifyVal env val) (capturedUIValues tr)\<rparr>
        else tr)"

fun captureInstructions :: "SILEnv \<Rightarrow> SILInstruction list \<Rightarrow> Translator \<Rightarrow> Translator" where
  "captureInstructions env [] tr = tr"
| "captureInstructions env (inst # rest) tr =
     captureInstructions env rest
       (if isApplyInst inst then captureOperands env (getOperandValues inst) tr else tr)"

definition initCapturedUIValues :: "SILFunction \<Rightarrow> Translator \<Rightarrow> Translator" where
  "initCapturedUIValues fn tr =
     fold (\<lambda>block. captureInstructions (fnEnv fn) (blockInstructions fn block)) (blockList fn) tr"

definition newTranslator :: "SILFunction \<Rightarrow> error + Translator" where
  "newTranslator fn =
     (if \<not> hasSendableProtocol fn then Inl AssertionFailure
      else Inr (initCapturedUIValues fn
             \<lparr>nodeIDMap = Map.empty, nextNodeID = 0, capturedUIValues = {},
              currentInstruction = None, translationIndex = 0\<rparr>))"

fun lookupArgs :: "SILEnv \<Rightarrow> SILValue list \<Rightarrow> nat list \<times> Translator \<Rightarrow> error + (nat list \<times> Translator)" where
  "lookupArgs env [] acc = Inr acc"
| "lookupArgs env (arg # rest) (argIDs, tr) =
     (if typeLacksSendable env arg
      then bindE (lookupNodeID env tr arg) (\<lambda>(n, tr1). lookupArgs env rest (argIDs @ [n], tr1))
      else lookupArgs env rest (argIDs, tr))"

definition getArgIDs :: "SILFunction \<Rightarrow> Translator \<Rightarrow> error + (nat list \<times> Translator)" where
  "getArgIDs fn tr =
     bindE (lookupArgs (fnEnv fn) (getArguments fn) ([], tr)) (\<lambda>(argIDs, tr1).
       if hasSelfParam fn \<and> typeLacksSendable (fnEnv fn) (getSelfArgument fn)
       then bindE (lookupNodeID (fnEnv fn) tr1 (getSelfArgument fn)) (\<lambda>(n, tr2).
              Inr (argIDs @ [n], tr2))
       else Inr (argIDs, tr1))"

definition getNonConsumables :: "SILFunction \<Rightarrow> Translator \<Rightarrow> error + (nat list \<times> Translator)" where
  "getNonConsumables fn tr =
     bindE (getArgIDs fn tr) (\<lambda>(argIDs, tr1).
       if argIDs \<noteq> [] then Inr ([hd argIDs], tr1) else Inr ([], tr1))"

section \<open>Partition\<close>

text \<open>
  \<open>Partition\<close> is declared in \<^verbatim>\<open>swift/SILOptimizer/Utils/PartitionUtils.h\<close>, which is
  not among the sources. The code of the pass is modelled over any implementation of
  it: the operations the pass calls are the fields of \<open>PartitionImpl\<close>, and \<open>'p\<close> is
  the type of partitions. \<open>applyOp\<close> is \<open>Partition::apply\<close> with no callback.
\<close>

record 'p PartitionImpl =
  emptyPartition :: 'p
  singleRegion :: "nat list \<Rightarrow> 'p"
  applyOp :: "'p \<Rightarrow> PartitionOp \<Rightarrow> 'p"
  join :: "'p \<Rightarrow> 'p \<Rightarrow> 'p"
  equals :: "'p \<Rightarrow> 'p \<Rightarrow> bool"
  isConsumed :: "'p \<Rightarrow> nat \<Rightarrow> bool"
  isTracked :: "'p \<Rightarrow> nat \<Rightarrow> bool"
  sameRegion :: "'p \<Rightarrow> nat \<Rightarrow> nat \<Rightarrow> bool"
  getConsumedVals :: "'p \<Rightarrow> nat list"
  getNonConsumedRegions :: "'p \<Rightarrow> nat list list"

text \<open>
  Modelled from the spec: \<open>Partition::apply\<close> with callbacks is in the missing header.
  The spec: for \<open>Require(v)\<close>, if \<open>v\<close> is consumed, the failure callback is called with
  the operation and \<open>v\<close>; for \<open>Consume(v)\<close>, if an ID of the non-consumables lies in the
  region of \<open>v\<close>, the other callback is called with the operation and \<open>v\<close>; then the
  state changes as without callbacks. The calls are returned as a list.
\<close>

datatype ApplyCallback = HandleFailure PartitionOp nat | HandleConsumeNonConsumable PartitionOp nat

fun applyCallbacks :: "'p PartitionImpl \<Rightarrow> 'p \<Rightarrow> nat list \<Rightarrow> PartitionOp \<Rightarrow> ApplyCallback list" where
  "applyCallbacks impl P nonConsumables (Require v i) =
     (if isConsumed impl P v then [HandleFailure (Require v i) v] else [])"
| "applyCallbacks impl P nonConsumables (Consume v i) =
     (if list_ex (\<lambda>n. sameRegion impl P n v) nonConsumables
      then [HandleConsumeNonConsumable (Consume v i) v] else [])"
| "applyCallbacks impl P nonConsumables op = []"

section \<open>BlockPartitionState\<close>

record 'p BlockPartitionState =
  needsUpdate :: bool
  reached :: bool
  entryPartition :: 'p
  exitPartition :: 'p
  blockPartitionOpsPopulated :: bool
  blockPartitionOps :: "PartitionOp list"

definition newBlockPartitionState :: "'p PartitionImpl \<Rightarrow> 'p BlockPartitionState" where
  "newBlockPartitionState impl =
     \<lparr>needsUpdate = False, reached = False,
      entryPartition = emptyPartition impl, exitPartition = emptyPartition impl,
      blockPartitionOpsPopulated = False, blockPartitionOps = []\<rparr>"

definition ensureBlockPartitionOpsPopulated ::
  "SILFunction \<Rightarrow> nat \<Rightarrow> Translator \<Rightarrow> 'p BlockPartitionState
   \<Rightarrow> error + ('p BlockPartitionState \<times> Translator)" where
  "ensureBlockPartitionOpsPopulated fn basicBlock tr state =
     (if blockPartitionOpsPopulated state then Inr (state, tr)
      else bindE (translateSILBasicBlock (fnEnv fn) tr (blockInstructions fn basicBlock))
             (\<lambda>(ops, tr1).
               Inr (state\<lparr>blockPartitionOpsPopulated := True, blockPartitionOps := ops\<rparr>, tr1)))"

definition recomputeExitFromEntry ::
  "'p PartitionImpl \<Rightarrow> SILFunction \<Rightarrow> nat \<Rightarrow> Translator \<Rightarrow> 'p BlockPartitionState
   \<Rightarrow> error + (bool \<times> 'p BlockPartitionState \<times> Translator)" where
  "recomputeExitFromEntry impl fn basicBlock tr state0 =
     bindE (ensureBlockPartitionOpsPopulated fn basicBlock tr state0) (\<lambda>(state, tr1).
       let workingPartition = foldl (applyOp impl) (entryPartition state) (blockPartitionOps state);
           exitUpdated = (\<not> equals impl (exitPartition state) workingPartition)
       in Inr (exitUpdated, state\<lparr>exitPartition := workingPartition\<rparr>, tr1))"

text \<open>
  The tracer below recurses through the control-flow graph; it is modelled with fuel.
  A result is \<open>None\<close> when the fuel ran out, \<open>Some (Inl e)\<close> when the code stopped at
  a failed assertion, and \<open>Some (Inr x)\<close> when it returned \<open>x\<close>.
\<close>

type_synonym 'a res = "(error + 'a) option"

definition bindR :: "'a res \<Rightarrow> ('a \<Rightarrow> 'b res) \<Rightarrow> 'b res" where
  "bindR m f = (case m of None \<Rightarrow> None | Some (Inl e) \<Rightarrow> Some (Inl e) | Some (Inr x) \<Rightarrow> f x)"

fun foldR :: "('a \<Rightarrow> 's \<Rightarrow> 's res) \<Rightarrow> 'a list \<Rightarrow> 's \<Rightarrow> 's res" where
  "foldR f [] s = Some (Inr s)"
| "foldR f (x # xs) s = bindR (f x s) (foldR f xs)"

text \<open>
  \<open>diagnoseFailures\<close> replays the operations over a working copy of the entry
  partition and calls its two callbacks, which act on a state \<open>'s\<close> of the caller. It
  returns the state of the block as it leaves it (\<open>getNonConsumables\<close> is asked once for
  each operation, as in the source, and works on the translator).
\<close>

fun runCallback ::
  "(PartitionOp \<Rightarrow> nat \<Rightarrow> 's \<Rightarrow> 's res) \<Rightarrow> (PartitionOp \<Rightarrow> nat \<Rightarrow> 's \<Rightarrow> 's res)
   \<Rightarrow> ApplyCallback \<Rightarrow> 's \<Rightarrow> 's res" where
  "runCallback handleFailure handleConsumeNonConsumable (HandleFailure op v) s =
     handleFailure op v s"
| "runCallback handleFailure handleConsumeNonConsumable (HandleConsumeNonConsumable op v) s =
     handleConsumeNonConsumable op v s"

fun diagnoseOps ::
  "'p PartitionImpl \<Rightarrow> SILFunction
   \<Rightarrow> (PartitionOp \<Rightarrow> nat \<Rightarrow> 's \<Rightarrow> 's res) \<Rightarrow> (PartitionOp \<Rightarrow> nat \<Rightarrow> 's \<Rightarrow> 's res)
   \<Rightarrow> PartitionOp list \<Rightarrow> 'p \<times> Translator \<times> 's \<Rightarrow> ('p \<times> Translator \<times> 's) res" where
  "diagnoseOps impl fn handleFailure handleConsumeNonConsumable [] acc = Some (Inr acc)"
| "diagnoseOps impl fn handleFailure handleConsumeNonConsumable (partitionOp # rest)
     (workingPartition, tr, s) =
     bindR (Some (getNonConsumables fn tr)) (\<lambda>(nonConsumables, tr1).
     bindR (foldR (runCallback handleFailure handleConsumeNonConsumable)
              (applyCallbacks impl workingPartition nonConsumables partitionOp) s) (\<lambda>s1.
       diagnoseOps impl fn handleFailure handleConsumeNonConsumable rest
         (applyOp impl workingPartition partitionOp, tr1, s1)))"

definition diagnoseFailures ::
  "'p PartitionImpl \<Rightarrow> SILFunction
   \<Rightarrow> (PartitionOp \<Rightarrow> nat \<Rightarrow> 's \<Rightarrow> 's res) \<Rightarrow> (PartitionOp \<Rightarrow> nat \<Rightarrow> 's \<Rightarrow> 's res)
   \<Rightarrow> 'p BlockPartitionState \<Rightarrow> Translator \<times> 's
   \<Rightarrow> ('p BlockPartitionState \<times> Translator \<times> 's) res" where
  "diagnoseFailures impl fn handleFailure handleConsumeNonConsumable state acc =
     (case acc of (tr, s) \<Rightarrow>
        bindR (diagnoseOps impl fn handleFailure handleConsumeNonConsumable
                 (blockPartitionOps state) (entryPartition state, tr, s))
          (\<lambda>(workingPartition, tr1, s1). Some (Inr (state, tr1, s1))))"

section \<open>Reasons of a consumption\<close>

datatype LocalConsumedReason =
    LocalConsumeInst PartitionOp
  | LocalNonConsumeInst
  | NonLocal

text \<open>
  \<open>ConsumedReason\<close> holds a \<open>std::map\<close> from distances to vectors of operations: a list
  of pairs in ascending order of the distance.
\<close>

type_synonym ConsumedReason = "(nat \<times> PartitionOp list) list"

definition containsOp :: "ConsumedReason \<Rightarrow> PartitionOp \<Rightarrow> bool" where
  "containsOp consumeOps op = list_ex (\<lambda>(d, vec). op \<in> set vec) consumeOps"

definition isValid :: "ConsumedReason \<Rightarrow> bool" where
  "isValid consumeOps = list_ex (\<lambda>(d, vec). vec \<noteq> []) consumeOps"

fun pushBackAt :: "nat \<Rightarrow> PartitionOp \<Rightarrow> ConsumedReason \<Rightarrow> ConsumedReason" where
  "pushBackAt distance op [] = [(distance, [op])]"
| "pushBackAt distance op ((d, vec) # rest) =
     (if distance = d then (d, vec @ [op]) # rest
      else if distance < d then (distance, [op]) # (d, vec) # rest
      else (d, vec) # pushBackAt distance op rest)"

definition addConsumeOp :: "PartitionOp \<Rightarrow> nat \<Rightarrow> ConsumedReason \<Rightarrow> error + ConsumedReason" where
  "addConsumeOp consumeOp distance consumeOps =
     (if getKind consumeOp \<noteq> ConsumeKind then Inl AssertionFailure
      else if containsOp consumeOps consumeOp then Inl AssertionFailure
      else Inr (pushBackAt distance consumeOp consumeOps))"

fun addOpsAtDistance :: "PartitionOp list \<Rightarrow> nat \<Rightarrow> ConsumedReason \<Rightarrow> error + ConsumedReason" where
  "addOpsAtDistance [] distance consumeOps = Inr consumeOps"
| "addOpsAtDistance (otherConsumeOp # rest) distance consumeOps =
     bindE (addConsumeOp otherConsumeOp distance consumeOps) (addOpsAtDistance rest distance)"

fun addOtherReasonAtDistance :: "ConsumedReason \<Rightarrow> nat \<Rightarrow> ConsumedReason \<Rightarrow> error + ConsumedReason" where
  "addOtherReasonAtDistance [] distance consumeOps = Inr consumeOps"
| "addOtherReasonAtDistance ((otherDistance, otherConsumeOpsAtDistance) # rest) distance consumeOps =
     bindE (addOpsAtDistance otherConsumeOpsAtDistance (distance + otherDistance) consumeOps)
       (addOtherReasonAtDistance rest distance)"

section \<open>ConsumeRequireAccumulator\<close>

text \<open>
  \<open>requirementsForConsumptions\<close> is a \<open>std::map\<close> from operations to \<open>std::set\<close>s of
  \<open>PartitionOpAtDistance\<close>. A \<open>PartitionOpAtDistance\<close> is the pair of the distance and
  the operation, in this order, so that the order of pairs is its \<open>operator<\<close>: the
  distance first, then the operation. The set is the list of its elements in ascending
  order, the map the list of its entries in ascending order of the key. The type of
  operations is any linear order \<open>'o\<close>.
\<close>

type_synonym 'o PartitionOpAtDistance = "nat \<times> 'o"

type_synonym 'o ConsumeRequireAccumulator = "('o \<times> 'o PartitionOpAtDistance list) list"

definition setInsert :: "'a::linorder \<Rightarrow> 'a list \<Rightarrow> 'a list" where
  "setInsert x xs = (if x \<in> set xs then xs else insort x xs)"

fun insertRequirement ::
  "'o::linorder \<Rightarrow> 'o PartitionOpAtDistance \<Rightarrow> 'o ConsumeRequireAccumulator
   \<Rightarrow> 'o ConsumeRequireAccumulator" where
  "insertRequirement consumeOp x [] = [(consumeOp, [x])]"
| "insertRequirement consumeOp x ((k, requireOps) # rest) =
     (if consumeOp = k then (k, setInsert x requireOps) # rest
      else if consumeOp < k then (consumeOp, [x]) # (k, requireOps) # rest
      else (k, requireOps) # insertRequirement consumeOp x rest)"

definition accumulateConsumedReason ::
  "'o::linorder \<Rightarrow> (nat \<times> 'o list) list \<Rightarrow> 'o ConsumeRequireAccumulator
   \<Rightarrow> 'o ConsumeRequireAccumulator" where
  "accumulateConsumedReason requireOp consumedReason acc =
     fold (\<lambda>(distance, consumeOps) acc1.
             fold (\<lambda>consumeOp. insertRequirement consumeOp (distance, requireOp)) consumeOps acc1)
       consumedReason acc"

datatype 'o AccumulatorCall = ProcessConsumeOp 'o nat nat | ProcessRequireOp 'o

fun processRequires :: "nat \<Rightarrow> 'o PartitionOpAtDistance list \<Rightarrow> 'o AccumulatorCall list" where
  "processRequires numRequiresToProcess [] = []"
| "processRequires numRequiresToProcess ((d, requireOp) # rest) =
     (if numRequiresToProcess = 0 then []
      else ProcessRequireOp requireOp # processRequires (numRequiresToProcess - 1) rest)"

definition forEachConsumeRequire ::
  "nat \<Rightarrow> 'o ConsumeRequireAccumulator \<Rightarrow> 'o AccumulatorCall list" where
  "forEachConsumeRequire numRequiresPerConsume acc =
     concat (map (\<lambda>(consumeOp, requireOps).
                    let numProcessed = min (length requireOps) numRequiresPerConsume in
                    ProcessConsumeOp consumeOp numProcessed (length requireOps - numProcessed)
                    # processRequires numRequiresPerConsume requireOps)
                 acc)"

section \<open>RaceTracer\<close>

record RaceTracer =
  consumedAtEntryReasons :: "nat \<times> nat \<rightharpoonup> ConsumedReason"
  consumedAtExitReasons :: "nat \<times> nat \<rightharpoonup> LocalConsumedReason"
  accumulator :: "PartitionOp ConsumeRequireAccumulator"

definition newRaceTracer :: RaceTracer where
  "newRaceTracer =
     \<lparr>consumedAtEntryReasons = Map.empty, consumedAtExitReasons = Map.empty, accumulator = []\<rparr>"

text \<open>
  The walk of \<open>findLocalConsumedReason\<close> over the operations of the block: the lambda
  given to \<open>forEachPartitionOp\<close>, which stops at the target operation.
\<close>

fun walkPartitionOps ::
  "'p PartitionImpl \<Rightarrow> nat \<Rightarrow> PartitionOp option \<Rightarrow> PartitionOp list
   \<Rightarrow> 'p \<times> LocalConsumedReason option \<Rightarrow> 'p \<times> LocalConsumedReason option" where
  "walkPartitionOps impl consumedVal targetOp [] acc = acc"
| "walkPartitionOps impl consumedVal targetOp (partitionOp # rest) (workingPartition, consumedReason) =
     (if targetOp = Some partitionOp then (workingPartition, consumedReason)
      else
        let working1 = applyOp impl workingPartition partitionOp;
            reason1 =
              (if isConsumed impl working1 consumedVal \<and> consumedReason = None
               then (if getKind partitionOp = ConsumeKind
                     then Some (LocalConsumeInst partitionOp)
                     else Some LocalNonConsumeInst)
               else consumedReason);
            reason2 =
              (if \<not> isConsumed impl working1 consumedVal \<and> reason1 \<noteq> None
               then None else reason1)
        in walkPartitionOps impl consumedVal targetOp rest (working1, reason2))"

definition findLocalConsumedReason ::
  "'p PartitionImpl \<Rightarrow> (nat \<Rightarrow> 'p BlockPartitionState) \<Rightarrow> RaceTracer
   \<Rightarrow> nat \<Rightarrow> nat \<Rightarrow> PartitionOp option \<Rightarrow> error + (LocalConsumedReason \<times> RaceTracer)" where
  "findLocalConsumedReason impl blockStates rt SILBlock consumedVal targetOp =
     (case (if targetOp = None then consumedAtExitReasons rt (SILBlock, consumedVal) else None) of
        Some cached \<Rightarrow> Inr (cached, rt)
      | None \<Rightarrow>
        let block = blockStates SILBlock in
        if targetOp = None \<and> \<not> isConsumed impl (exitPartition block) consumedVal
        then Inl AssertionFailure
        else
          let working0 = entryPartition block;
              working = (if isConsumed impl working0 consumedVal
                         then applyOp impl working0 (AssignFresh consumedVal None)
                         else working0);
              walked = snd (walkPartitionOps impl consumedVal targetOp (blockPartitionOps block)
                              (working, None));
              consumedReason =
                (if walked = None \<and> isConsumed impl (entryPartition block) consumedVal
                 then Some NonLocal else walked)
          in case consumedReason of
               None \<Rightarrow> Inl AssertionFailure
             | Some reason \<Rightarrow>
                 if targetOp = None
                 then Inr (reason,
                        rt\<lparr>consumedAtExitReasons :=
                             (consumedAtExitReasons rt)((SILBlock, consumedVal) \<mapsto> reason)\<rparr>)
                 else Inr (reason, rt))"

text \<open>
  \<open>findAndAddConsumedReasons\<close> and \<open>findConsumedAtEntryReason\<close> call each other. The
  first takes the second as the argument \<open>recurse\<close>; the second is defined by recursion
  on the fuel and hands itself, with one unit of fuel less, to the first.
\<close>

definition findAndAddConsumedReasons ::
  "(RaceTracer \<Rightarrow> nat \<Rightarrow> nat \<Rightarrow> (ConsumedReason \<times> RaceTracer) res)
   \<Rightarrow> 'p PartitionImpl \<Rightarrow> (nat \<Rightarrow> 'p BlockPartitionState)
   \<Rightarrow> nat \<Rightarrow> nat \<Rightarrow> nat \<Rightarrow> PartitionOp option
   \<Rightarrow> ConsumedReason \<times> RaceTracer \<Rightarrow> (ConsumedReason \<times> RaceTracer) res" where
  "findAndAddConsumedReasons recurse impl blockStates SILBlock consumedVal distance targetOp acc =
     (case acc of (consumedReason, rt) \<Rightarrow>
      if \<not> isConsumed impl (exitPartition (blockStates SILBlock)) consumedVal
      then Some (Inl AssertionFailure)
      else
        bindR (Some (findLocalConsumedReason impl blockStates rt SILBlock consumedVal targetOp))
          (\<lambda>(localReason, rt1).
            case localReason of
              LocalConsumeInst localInst \<Rightarrow>
                bindR (Some (addConsumeOp localInst distance consumedReason))
                  (\<lambda>reason. Some (Inr (reason, rt1)))
            | LocalNonConsumeInst \<Rightarrow> Some (Inr (consumedReason, rt1))
            | NonLocal \<Rightarrow>
                bindR (recurse rt1 SILBlock consumedVal) (\<lambda>(otherReason, rt2).
                bindR (Some (addOtherReasonAtDistance otherReason distance consumedReason))
                  (\<lambda>reason. Some (Inr (reason, rt2))))))"

text \<open>
  The three tables of \<open>findConsumedAtEntryReason\<close>. \<open>consumedInSomePred\<close> is asked for
  one key at a time. \<open>singleStepJoins\<close> is kept as the list of its edges; the set of a
  key is the sorted list of the edges that leave it. \<open>distancesFromTarget\<close> is a
  \<open>std::map\<close>: a list of pairs in ascending order of the key.
\<close>

definition consumedInSomePred ::
  "'p PartitionImpl \<Rightarrow> SILFunction \<Rightarrow> (nat \<Rightarrow> 'p BlockPartitionState) \<Rightarrow> nat \<Rightarrow> nat \<Rightarrow> nat list" where
  "consumedInSomePred impl fn blockStates SILBlock key =
     concat (map (\<lambda>pred.
               map (\<lambda>consumedVal. pred)
                 (filter (\<lambda>consumedVal.
                            isTracked impl (entryPartition (blockStates SILBlock)) consumedVal
                            \<and> consumedVal = key)
                    (getConsumedVals impl (exitPartition (blockStates pred)))))
             (getPredecessorBlocks fn SILBlock))"

definition singleStepJoins ::
  "'p PartitionImpl \<Rightarrow> SILFunction \<Rightarrow> (nat \<Rightarrow> 'p BlockPartitionState) \<Rightarrow> nat \<Rightarrow> (nat \<times> nat) list" where
  "singleStepJoins impl fn blockStates SILBlock =
     concat (map (\<lambda>pred.
       concat (map (\<lambda>region.
         concat (map (\<lambda>fst0.
           concat (map (\<lambda>snd0.
             if fst0 \<noteq> snd0
                \<and> isTracked impl (entryPartition (blockStates SILBlock)) fst0
                \<and> isTracked impl (entryPartition (blockStates SILBlock)) snd0
             then [(fst0, snd0)] else []) region)) region))
         (getNonConsumedRegions impl (exitPartition (blockStates pred)))))
       (getPredecessorBlocks fn SILBlock))"

definition joinsOf :: "(nat \<times> nat) list \<Rightarrow> nat \<Rightarrow> nat list" where
  "joinsOf joins key = sort (remdups (map snd (filter (\<lambda>e. fst e = key) joins)))"

fun mapSet :: "nat \<Rightarrow> 'v \<Rightarrow> (nat \<times> 'v) list \<Rightarrow> (nat \<times> 'v) list" where
  "mapSet key v [] = [(key, v)]"
| "mapSet key v ((k, w) # rest) =
     (if key = k then (k, v) # rest
      else if key < k then (key, v) # (k, w) # rest
      else (k, w) # mapSet key v rest)"

lemma keys_mapSet: "fst ` set (mapSet k v xs) = insert k (fst ` set xs)"
  by (induction k v xs rule: mapSet.induct) (simp_all, blast)

lemma set_joinsOf: "set (joinsOf joins k) \<subseteq> snd ` set joins"
  by (auto simp: joinsOf_def)

function bfs :: "(nat \<times> nat) list \<Rightarrow> (nat \<times> nat) list \<Rightarrow> (nat \<times> nat) list \<Rightarrow> (nat \<times> nat) list" where
  "bfs joins [] distancesFromTarget = distancesFromTarget"
| "bfs joins ((currentTarget, currentDistance) # processValues) distancesFromTarget =
     (let distances1 = mapSet currentTarget currentDistance distancesFromTarget in
      bfs joins
        (processValues
         @ map (\<lambda>nextTarget. (nextTarget, currentDistance + 1))
             (filter (\<lambda>nextTarget. nextTarget \<notin> fst ` set distances1)
                (joinsOf joins currentTarget)))
        distances1)"
  by pat_completeness auto
termination
proof (relation "measures [\<lambda>(joins, q, d). card ((snd ` set joins \<union> fst ` set q) - fst ` set d),
                           \<lambda>(joins, q, d). length (filter (\<lambda>e. fst e \<in> fst ` set d) q)]", goal_cases)
  case 1
  show ?case by simp
next
  case (2 joins c cd q d x)
  let ?new = "filter (\<lambda>n. n \<notin> fst ` set x) (joinsOf joins c)"
  let ?q' = "q @ map (\<lambda>n. (n, cd + 1)) ?new"
  have x: "fst ` set x = insert c (fst ` set d)" using 2 by (simp add: keys_mapSet)
  have newsub: "set ?new \<subseteq> snd ` set joins" using set_joinsOf by fastforce
  have fq': "fst ` set ?q' = fst ` set q \<union> set ?new" by (auto simp: image_Un image_image)
  let ?A = "(snd ` set joins \<union> fst ` set ((c, cd) # q)) - fst ` set d"
  let ?B = "(snd ` set joins \<union> fst ` set ?q') - fst ` set x"
  have fin: "finite ?A" by simp
  have sub: "?B \<subseteq> ?A" using newsub unfolding fq' x by auto
  show ?case
  proof (cases "c \<in> fst ` set d")
    case True
    then have xd: "fst ` set x = fst ` set d" using x by auto
    have le: "card ?B \<le> card ?A" by (rule card_mono[OF fin sub])
    have "filter (\<lambda>e. fst e \<in> fst ` set d) (map (\<lambda>n. (n, cd + 1)) ?new) = []"
      unfolding xd by (auto simp: filter_empty_conv)
    then have m2: "length (filter (\<lambda>e. fst e \<in> fst ` set x) ?q')
        < length (filter (\<lambda>e. fst e \<in> fst ` set d) ((c, cd) # q))"
      using True unfolding xd by simp
    from le m2 show ?thesis by (auto simp: le_less)
  next
    case False
    then have "c \<in> ?A" "c \<notin> ?B" using x by auto
    then have "?B \<subset> ?A" using sub by auto
    then have "card ?B < card ?A" by (rule psubset_card_mono[OF fin])
    then show ?thesis by simp
  qed
qed


text \<open>
  \<open>bfs\<close> is the loop over the deque \<open>processValues\<close>. A value gets its distance when
  it leaves the deque, so a value that entered the deque twice gets the later distance.
\<close>

definition distancesFromTarget ::
  "'p PartitionImpl \<Rightarrow> SILFunction \<Rightarrow> (nat \<Rightarrow> 'p BlockPartitionState) \<Rightarrow> nat \<Rightarrow> nat
   \<Rightarrow> (nat \<times> nat) list" where
  "distancesFromTarget impl fn blockStates SILBlock consumedVal =
     bfs (singleStepJoins impl fn blockStates SILBlock) [(consumedVal, 0)] []"

primrec findConsumedAtEntryReason ::
  "nat \<Rightarrow> 'p PartitionImpl \<Rightarrow> SILFunction \<Rightarrow> (nat \<Rightarrow> 'p BlockPartitionState)
   \<Rightarrow> RaceTracer \<Rightarrow> nat \<Rightarrow> nat \<Rightarrow> (ConsumedReason \<times> RaceTracer) res" where
  "findConsumedAtEntryReason 0 impl fn blockStates rt SILBlock consumedVal = None"
| "findConsumedAtEntryReason (Suc fuel) impl fn blockStates rt SILBlock consumedVal =
     (if \<not> isConsumed impl (entryPartition (blockStates SILBlock)) consumedVal
      then Some (Inl AssertionFailure)
      else case consumedAtEntryReasons rt (SILBlock, consumedVal) of
        Some cached \<Rightarrow> Some (Inr (cached, rt))
      | None \<Rightarrow>
          bindR
            (foldR (\<lambda>(predVal, distanceFromTarget).
                      foldR (\<lambda>predBlock.
                               findAndAddConsumedReasons
                                 (findConsumedAtEntryReason fuel impl fn blockStates)
                                 impl blockStates predBlock predVal distanceFromTarget None)
                        (consumedInSomePred impl fn blockStates SILBlock predVal))
               (distancesFromTarget impl fn blockStates SILBlock consumedVal)
               ([], rt\<lparr>consumedAtEntryReasons :=
                         (consumedAtEntryReasons rt)((SILBlock, consumedVal) \<mapsto> [])\<rparr>))
            (\<lambda>(consumedReason, rt1).
               Some (Inr (consumedReason,
                          rt1\<lparr>consumedAtEntryReasons :=
                                (consumedAtEntryReasons rt1)((SILBlock, consumedVal) \<mapsto> consumedReason)\<rparr>))))"

definition findConsumedAtOpReason ::
  "nat \<Rightarrow> 'p PartitionImpl \<Rightarrow> SILFunction \<Rightarrow> (nat \<Rightarrow> 'p BlockPartitionState)
   \<Rightarrow> RaceTracer \<Rightarrow> nat \<Rightarrow> PartitionOp \<Rightarrow> (ConsumedReason \<times> RaceTracer) res" where
  "findConsumedAtOpReason fuel impl fn blockStates rt consumedVal op =
     (case getSourceInst op of
        None \<Rightarrow> Some (Inl AssertionFailure)
      | Some inst \<Rightarrow>
          findAndAddConsumedReasons (findConsumedAtEntryReason fuel impl fn blockStates)
            impl blockStates (getParent fn inst) consumedVal 0 (Some op) ([], rt))"

definition traceUseOfConsumedValue ::
  "nat \<Rightarrow> 'p PartitionImpl \<Rightarrow> SILFunction \<Rightarrow> (nat \<Rightarrow> 'p BlockPartitionState)
   \<Rightarrow> PartitionOp \<Rightarrow> nat \<Rightarrow> RaceTracer \<Rightarrow> RaceTracer res" where
  "traceUseOfConsumedValue fuel impl fn blockStates use consumedVal rt =
     bindR (findConsumedAtOpReason fuel impl fn blockStates rt consumedVal use)
       (\<lambda>(consumedReason, rt1).
          Some (Inr (rt1\<lparr>accumulator :=
                          accumulateConsumedReason use consumedReason (accumulator rt1)\<rparr>)))"

section \<open>PartitionAnalysis\<close>

record 'p PartitionAnalysis =
  translator :: Translator
  blockStates :: "nat \<Rightarrow> 'p BlockPartitionState"
  raceTracer :: RaceTracer
  solved :: bool

definition NUM_REQUIREMENTS_TO_DIAGNOSE :: nat where
  "NUM_REQUIREMENTS_TO_DIAGNOSE = 5"

definition getEntryPartition ::
  "'p PartitionImpl \<Rightarrow> SILFunction \<Rightarrow> Translator \<Rightarrow> error + ('p \<times> Translator)" where
  "getEntryPartition impl fn tr =
     bindE (getArgIDs fn tr) (\<lambda>(argIDs, tr1). Inr (singleRegion impl argIDs, tr1))"

definition newPartitionAnalysis ::
  "'p PartitionImpl \<Rightarrow> SILFunction \<Rightarrow> error + 'p PartitionAnalysis" where
  "newPartitionAnalysis impl fn =
     bindE (newTranslator fn) (\<lambda>tr.
     bindE (getEntryPartition impl fn tr) (\<lambda>(entry, tr1).
       Inr \<lparr>translator = tr1,
            blockStates =
              (\<lambda>block. newBlockPartitionState impl)
                (getEntryBlock fn :=
                   (newBlockPartitionState impl)\<lparr>needsUpdate := True, entryPartition := entry\<rparr>),
            raceTracer = newRaceTracer,
            solved = False\<rparr>))"

text \<open>
  The loop of \<open>solve\<close> over the predecessors of a block: \<open>newEntryPartition\<close> and
  \<open>firstPred\<close> are the accumulator.
\<close>

fun joinPredecessors ::
  "'p PartitionImpl \<Rightarrow> (nat \<Rightarrow> 'p BlockPartitionState) \<Rightarrow> nat list \<Rightarrow> 'p \<times> bool \<Rightarrow> 'p \<times> bool" where
  "joinPredecessors impl states [] acc = acc"
| "joinPredecessors impl states (predBlock # rest) (newEntryPartition, firstPred) =
     (if \<not> reached (states predBlock)
      then joinPredecessors impl states rest (newEntryPartition, firstPred)
      else if firstPred
      then joinPredecessors impl states rest (exitPartition (states predBlock), False)
      else joinPredecessors impl states rest
             (join impl newEntryPartition (exitPartition (states predBlock)), False))"

fun flagSuccessors ::
  "nat list \<Rightarrow> (nat \<Rightarrow> 'p BlockPartitionState) \<times> bool \<Rightarrow> (nat \<Rightarrow> 'p BlockPartitionState) \<times> bool" where
  "flagSuccessors [] acc = acc"
| "flagSuccessors (succBlock # rest) (states, anyNeedUpdate) =
     flagSuccessors rest (states(succBlock := (states succBlock)\<lparr>needsUpdate := True\<rparr>), True)"

text \<open>
  \<open>solveBlock\<close> is the body of the loop of \<open>solve\<close> over the blocks; \<open>solveSweep\<close> is
  that loop; \<open>solveLoop\<close> is the \<open>while\<close> loop, with fuel.
\<close>

definition solveBlock ::
  "'p PartitionImpl \<Rightarrow> SILFunction \<Rightarrow> nat \<Rightarrow> 'p PartitionAnalysis \<times> bool
   \<Rightarrow> error + ('p PartitionAnalysis \<times> bool)" where
  "solveBlock impl fn block acc =
     (case acc of (pa, anyNeedUpdate) \<Rightarrow>
      if \<not> needsUpdate (blockStates pa block) then Inr (pa, anyNeedUpdate)
      else
        let states1 = (blockStates pa)
                        (block := (blockStates pa block)\<lparr>needsUpdate := False, reached := True\<rparr>);
            (newEntryPartition, firstPred) =
               joinPredecessors impl states1 (getPredecessorBlocks fn block)
                 (emptyPartition impl, True)
        in
        if \<not> firstPred \<and> equals impl newEntryPartition (entryPartition (states1 block))
        then Inr (pa\<lparr>blockStates := states1\<rparr>, anyNeedUpdate)
        else
          let states2 = (if \<not> firstPred
                         then states1(block := (states1 block)\<lparr>entryPartition := newEntryPartition\<rparr>)
                         else states1)
          in
          bindE (recomputeExitFromEntry impl fn block (translator pa) (states2 block))
            (\<lambda>(exitUpdated, state, tr).
               let states3 = states2(block := state) in
               if exitUpdated
               then (case flagSuccessors (getSuccessorBlocks fn block) (states3, anyNeedUpdate) of
                       (states4, any4) \<Rightarrow>
                         Inr (pa\<lparr>translator := tr, blockStates := states4\<rparr>, any4))
               else Inr (pa\<lparr>translator := tr, blockStates := states3\<rparr>, anyNeedUpdate)))"

fun solveSweep ::
  "'p PartitionImpl \<Rightarrow> SILFunction \<Rightarrow> nat list \<Rightarrow> 'p PartitionAnalysis \<times> bool
   \<Rightarrow> error + ('p PartitionAnalysis \<times> bool)" where
  "solveSweep impl fn [] acc = Inr acc"
| "solveSweep impl fn (block # rest) acc =
     bindE (solveBlock impl fn block acc) (solveSweep impl fn rest)"

primrec solveLoop ::
  "nat \<Rightarrow> 'p PartitionImpl \<Rightarrow> SILFunction \<Rightarrow> 'p PartitionAnalysis \<Rightarrow> 'p PartitionAnalysis res" where
  "solveLoop 0 impl fn pa = None"
| "solveLoop (Suc fuel) impl fn pa =
     (case solveSweep impl fn (blockList fn) (pa, False) of
        Inl e \<Rightarrow> Some (Inl e)
      | Inr (pa1, anyNeedUpdate) \<Rightarrow>
          if anyNeedUpdate then solveLoop fuel impl fn pa1 else Some (Inr pa1))"

definition solve ::
  "nat \<Rightarrow> 'p PartitionImpl \<Rightarrow> SILFunction \<Rightarrow> 'p PartitionAnalysis \<Rightarrow> 'p PartitionAnalysis res" where
  "solve fuel impl fn pa =
     (if solved pa then Some (Inl AssertionFailure)
      else solveLoop fuel impl fn (pa\<lparr>solved := True\<rparr>))"

text \<open>
  A diagnostic is its kind, the instruction whose location it is reported at, and its
  arguments. \<open>consumed_value_used\<close> is the diagnostic of the access site; the source
  names it only inside a comment.
\<close>

datatype Diagnostic =
    consumed_value_used nat
  | arg_region_consumed nat
  | consumption_yields_race nat nat bool bool nat
  | possible_racy_access_site nat

definition getExprForPartitionOp :: "SILFunction \<Rightarrow> PartitionOp \<Rightarrow> error + nat" where
  "getExprForPartitionOp fn op =
     (case getSourceInst op of
        None \<Rightarrow> Inl AssertionFailure
      | Some sourceInstr \<Rightarrow>
          if locIsExpr fn sourceInstr then Inr sourceInstr else Inl AssertionFailure)"

definition diagnoseCall :: "SILFunction \<Rightarrow> PartitionOp AccumulatorCall \<Rightarrow> error + Diagnostic" where
  "diagnoseCall fn call =
     (case call of
        ProcessConsumeOp consumeOp numDisplayed numHidden \<Rightarrow>
          bindE (getExprForPartitionOp fn consumeOp) (\<lambda>expr.
            Inr (consumption_yields_race expr numDisplayed (numDisplayed \<noteq> 1)
                   (numHidden > 0) numHidden))
      | ProcessRequireOp requireOp \<Rightarrow>
          bindE (getExprForPartitionOp fn requireOp) (\<lambda>expr.
            Inr (possible_racy_access_site expr)))"

fun diagnoseCalls ::
  "SILFunction \<Rightarrow> PartitionOp AccumulatorCall list \<Rightarrow> Diagnostic list \<Rightarrow> error + Diagnostic list" where
  "diagnoseCalls fn [] diags = Inr diags"
| "diagnoseCalls fn (call # rest) diags =
     bindE (diagnoseCall fn call) (\<lambda>d. diagnoseCalls fn rest (diags @ [d]))"

definition handleFailure ::
  "nat \<Rightarrow> 'p PartitionImpl \<Rightarrow> SILFunction \<Rightarrow> (nat \<Rightarrow> 'p BlockPartitionState)
   \<Rightarrow> PartitionOp \<Rightarrow> nat \<Rightarrow> RaceTracer \<times> Diagnostic list \<Rightarrow> (RaceTracer \<times> Diagnostic list) res" where
  "handleFailure fuel impl fn states partitionOp consumedVal s =
     (case s of (rt, diags) \<Rightarrow>
        bindR (traceUseOfConsumedValue fuel impl fn states partitionOp consumedVal rt)
          (\<lambda>rt1. Some (Inr (rt1, diags))))"

definition handleConsumeNonConsumable ::
  "SILFunction \<Rightarrow> PartitionOp \<Rightarrow> nat \<Rightarrow> RaceTracer \<times> Diagnostic list
   \<Rightarrow> (RaceTracer \<times> Diagnostic list) res" where
  "handleConsumeNonConsumable fn partitionOp consumedVal s =
     (case s of (rt, diags) \<Rightarrow>
        bindR (Some (getExprForPartitionOp fn partitionOp))
          (\<lambda>expr. Some (Inr (rt, diags @ [arg_region_consumed expr]))))"

text \<open>
  The loop of \<open>diagnose\<close> over the blocks. The accumulator is the analysis and the
  diagnostics emitted so far; the tracer that the callbacks use is the field
  \<open>raceTracer\<close> of the analysis.
\<close>

fun diagnoseBlocks ::
  "nat \<Rightarrow> 'p PartitionImpl \<Rightarrow> SILFunction \<Rightarrow> nat list \<Rightarrow> 'p PartitionAnalysis \<times> Diagnostic list
   \<Rightarrow> ('p PartitionAnalysis \<times> Diagnostic list) res" where
  "diagnoseBlocks fuel impl fn [] acc = Some (Inr acc)"
| "diagnoseBlocks fuel impl fn (block # rest) (pa, diags) =
     bindR (diagnoseFailures impl fn
              (handleFailure fuel impl fn (blockStates pa))
              (handleConsumeNonConsumable fn)
              (blockStates pa block) (translator pa, (raceTracer pa, diags)))
       (\<lambda>(state, tr, (rt, diags1)).
          diagnoseBlocks fuel impl fn rest
            (pa\<lparr>translator := tr, blockStates := (blockStates pa)(block := state),
                 raceTracer := rt\<rparr>, diags1))"

definition diagnose ::
  "nat \<Rightarrow> 'p PartitionImpl \<Rightarrow> SILFunction \<Rightarrow> 'p PartitionAnalysis
   \<Rightarrow> ('p PartitionAnalysis \<times> Diagnostic list) res" where
  "diagnose fuel impl fn pa =
     (if \<not> solved pa then Some (Inl AssertionFailure)
      else
        bindR (diagnoseBlocks fuel impl fn (blockList fn) (pa, [])) (\<lambda>(pa1, diags).
        bindR (Some (diagnoseCalls fn
                 (forEachConsumeRequire NUM_REQUIREMENTS_TO_DIAGNOSE
                    (accumulator (raceTracer pa1))) diags))
          (\<lambda>diags1. Some (Inr (pa1, diags1)))))"

definition performForFunction ::
  "nat \<Rightarrow> 'p PartitionImpl \<Rightarrow> SILFunction \<Rightarrow> Diagnostic list res" where
  "performForFunction fuel impl fn =
     bindR (Some (newPartitionAnalysis impl fn)) (\<lambda>analysis.
     bindR (solve fuel impl fn analysis) (\<lambda>analysis1.
     bindR (diagnose fuel impl fn analysis1) (\<lambda>(analysis2, diags). Some (Inr diags))))"

section \<open>The pass\<close>

datatype PassOutcome = ReturnedEarly | Analyzed "Diagnostic list"

fun emitted :: "PassOutcome \<Rightarrow> Diagnostic list" where
  "emitted ReturnedEarly = []"
| "emitted (Analyzed diags) = diags"

definition run :: "nat \<Rightarrow> 'p PartitionImpl \<Rightarrow> SILFunction \<Rightarrow> PassOutcome res" where
  "run fuel impl fn =
     (if \<not> hasDeclContext fn then Some (Inr ReturnedEarly)
      else if \<not> hasDeferredSendableChecking fn then Some (Inr ReturnedEarly)
      else if \<not> hasSendableProtocol fn then Some (Inr ReturnedEarly)
      else bindR (performForFunction fuel impl fn) (\<lambda>diags. Some (Inr (Analyzed diags))))"

section \<open>A partition after the spec\<close>

text \<open>
  Modelled from the spec: the class \<open>Partition\<close> of the missing header, used below
  where a theorem is tried on a concrete function. The spec: a partition is an
  equivalence relation over value IDs with a consumed marker for each region. Here it
  is the list of its regions, each the list of its members and the marker.
  \<^item> \<open>assign_fresh(v)\<close> puts \<open>v\<close> alone into a new region that is not consumed;
  \<^item> \<open>assign(dst, src)\<close> makes \<open>dst\<close> a member of the region of \<open>src\<close>, and does nothing
    when the two are in one region already (the spec asks that \<open>src\<close> be tracked; when
    it is not, nothing is done here);
  \<^item> \<open>merge(a, b)\<close> unifies the two regions, consumed when one of them was;
  \<^item> \<open>consume(v)\<close> marks the region of \<open>v\<close>; \<open>require(v)\<close> changes nothing;
  \<^item> \<open>join\<close> merges every region of the second partition into the first;
  \<^item> \<open>equals\<close> compares the regions as sets, with their markers.
\<close>

type_synonym Partition = "(nat list \<times> bool) list"

definition specIsTracked :: "Partition \<Rightarrow> nat \<Rightarrow> bool" where
  "specIsTracked P v = list_ex (\<lambda>r. v \<in> set (fst r)) P"

definition specIsConsumed :: "Partition \<Rightarrow> nat \<Rightarrow> bool" where
  "specIsConsumed P v = list_ex (\<lambda>r. v \<in> set (fst r) \<and> snd r) P"

definition specSameRegion :: "Partition \<Rightarrow> nat \<Rightarrow> nat \<Rightarrow> bool" where
  "specSameRegion P a b = list_ex (\<lambda>r. a \<in> set (fst r) \<and> b \<in> set (fst r)) P"

definition specRemove :: "nat \<Rightarrow> Partition \<Rightarrow> Partition" where
  "specRemove v P = filter (\<lambda>r. fst r \<noteq> []) (map (\<lambda>r. (removeAll v (fst r), snd r)) P)"

definition specAddRegion :: "nat list \<times> bool \<Rightarrow> Partition \<Rightarrow> Partition" where
  "specAddRegion r P =
     (let touching = filter (\<lambda>q. list_ex (\<lambda>v. v \<in> set (fst r)) (fst q)) P;
          others = filter (\<lambda>q. \<not> list_ex (\<lambda>v. v \<in> set (fst r)) (fst q)) P
      in others @ [(remdups (concat (map fst touching) @ fst r), snd r \<or> list_ex snd touching)])"

fun specApply :: "Partition \<Rightarrow> PartitionOp \<Rightarrow> Partition" where
  "specApply P (AssignFresh v i) = specRemove v P @ [([v], False)]"
| "specApply P (Assign dst src i) =
     (if specSameRegion P dst src \<or> \<not> specIsTracked P src then P
      else map (\<lambda>r. if src \<in> set (fst r) then (fst r @ [dst], snd r) else r) (specRemove dst P))"
| "specApply P (Merge a b i) =
     (if specSameRegion P a b \<or> \<not> specIsTracked P a \<or> \<not> specIsTracked P b then P
      else specAddRegion ([a, b], False) P)"
| "specApply P (Consume v i) = map (\<lambda>r. if v \<in> set (fst r) then (fst r, True) else r) P"
| "specApply P (Require v i) = P"

definition specJoin :: "Partition \<Rightarrow> Partition \<Rightarrow> Partition" where
  "specJoin P Q = fold specAddRegion Q P"

definition specEquals :: "Partition \<Rightarrow> Partition \<Rightarrow> bool" where
  "specEquals P Q =
     (list_all (\<lambda>r. list_ex (\<lambda>q. set (fst r) = set (fst q) \<and> snd r = snd q) Q) P
      \<and> list_all (\<lambda>q. list_ex (\<lambda>r. set (fst r) = set (fst q) \<and> snd r = snd q) P) Q)"

definition specPartition :: "Partition PartitionImpl" where
  "specPartition =
     \<lparr>emptyPartition = [],
      singleRegion = (\<lambda>ids. if ids = [] then [] else [(remdups ids, False)]),
      applyOp = specApply,
      join = specJoin,
      equals = specEquals,
      isConsumed = specIsConsumed,
      isTracked = specIsTracked,
      sameRegion = specSameRegion,
      getConsumedVals = (\<lambda>P. concat (map fst (filter snd P))),
      getNonConsumedRegions = (\<lambda>P. map fst (filter (\<lambda>r. \<not> snd r) P))\<rparr>"

section \<open>A function with a race\<close>

text \<open>
  The function of scenario S4 of the spec, in SIL. Block 0 allocates an object \<open>%1\<close> of a
  type that is not Sendable and branches to the blocks 1 and 2; block 1 passes \<open>%1\<close> to
  a call that crosses isolation; block 2 is empty; both go on to block 3, which passes
  \<open>%1\<close> to a call that does not cross. \<open>%0\<close> is a \<open>function_ref\<close>.
\<close>

definition exDiamondEnv :: SILEnv where
  "exDiamondEnv = \<lparr>isAddress = (\<lambda>v. False), getUnderlyingObject = (\<lambda>v. v),
            getAccessStorageFromAddr = (\<lambda>v. None),
            definingInstKind = (\<lambda>v. if v = 0 then Some FunctionRefInst else None),
            typeLacksSendable = (\<lambda>v. v = 1)\<rparr>"

definition exDiamond :: SILFunction where
  "exDiamond =
     \<lparr>fnEnv = exDiamondEnv,
      blockList = [0, 1, 2, 3],
      getEntryBlock = 0,
      blockInstructions = (\<lambda>b.
        if b = 0 then [\<lparr>instId = 10, instKind = AllocRefInst, getOperandValues = [],
                         getResults = [1], crossesIsolation = False\<rparr>]
        else if b = 1 then [\<lparr>instId = 11, instKind = ApplyInst, getOperandValues = [0, 1],
                         getResults = [2], crossesIsolation = True\<rparr>]
        else if b = 3 then [\<lparr>instId = 13, instKind = ApplyInst, getOperandValues = [0, 1],
                         getResults = [3], crossesIsolation = False\<rparr>]
        else []),
      getPredecessorBlocks = (\<lambda>b. if b = 1 \<or> b = 2 then [0] else if b = 3 then [1, 2] else []),
      getSuccessorBlocks = (\<lambda>b. if b = 0 then [1, 2] else if b = 1 \<or> b = 2 then [3] else []),
      getParent = (\<lambda>i. i - 10),
      locIsExpr = (\<lambda>i. True),
      getArguments = [],
      hasSelfParam = False,
      getSelfArgument = 0,
      hasDeclContext = True,
      hasDeferredSendableChecking = True,
      hasSendableProtocol = True\<rparr>"

section \<open>The operations of a call\<close>

text \<open>
  \<open>nodeID\<close> is the ID of a value in a state of the translator: the one in \<open>nodeIDMap\<close>,
  or the one that \<open>lookupNodeID\<close> would mint next.
\<close>

definition nodeID :: "SILEnv \<Rightarrow> Translator \<Rightarrow> SILValue \<Rightarrow> nat" where
  "nodeID env tr v =
     (case nodeIDMap tr (simplifyVal env v) of Some n \<Rightarrow> n | None \<Rightarrow> nextNodeID tr)"

lemma lookupNodeID_hasID:
  "nodeHasID env tr v = Inr True \<Longrightarrow> lookupNodeID env tr v = Inr (nodeID env tr v, tr)"
  by (auto simp: nodeHasID_def lookupNodeID_def nodeID_def Let_def split: if_splits option.splits)

lemma ConsumeT_hasID:
  "nodeHasID env tr v = Inr True \<Longrightarrow>
   ConsumeT env v tr = Inr ([Consume (nodeID env tr v) (currentInstruction tr)], tr)"
  by (simp add: ConsumeT_def assertE_def bindE_def lookupNodeID_hasID)

lemma RequireT_hasID:
  "nodeHasID env tr v = Inr True \<Longrightarrow>
   RequireT env v tr = Inr ([Require (nodeID env tr v) (currentInstruction tr)], tr)"
  by (simp add: RequireT_def assertE_def bindE_def lookupNodeID_hasID)

lemma MergeT_hasID:
  "nodeHasID env tr a = Inr True \<Longrightarrow> nodeHasID env tr b = Inr True \<Longrightarrow>
   MergeT env a b tr =
     Inr (if nodeID env tr a = nodeID env tr b then []
          else [Merge (nodeID env tr a) (nodeID env tr b) (currentInstruction tr)], tr)"
  by (simp add: MergeT_def assertE_def bindE_def lookupNodeID_hasID)

lemma consumeAll_hasID:
  "\<forall>v \<in> set vs. nodeHasID env tr v = Inr True \<Longrightarrow>
   consumeAll env vs (acc, tr) =
     Inr (acc @ map (\<lambda>v. Consume (nodeID env tr v) (currentInstruction tr)) vs, tr)"
  by (induction vs arbitrary: acc)
     (simp_all add: add_to_translation_def bindE_def ConsumeT_hasID)

definition mergeOps :: "SILEnv \<Rightarrow> Translator \<Rightarrow> SILValue \<Rightarrow> SILValue \<Rightarrow> PartitionOp list" where
  "mergeOps env tr a b =
     (if nodeID env tr a = nodeID env tr b then []
      else [Merge (nodeID env tr a) (nodeID env tr b) (currentInstruction tr)])"

lemma mergeAll_hasID:
  "nodeHasID env tr prev = Inr True \<Longrightarrow> \<forall>v \<in> set vs. nodeHasID env tr v = Inr True \<Longrightarrow>
   mergeAll env prev vs (acc, tr) =
     Inr (acc @ concat (map (\<lambda>(a, b). mergeOps env tr a b) (zip (prev # vs) vs)), tr)"
  by (induction vs arbitrary: acc prev)
     (simp_all add: add_to_translation_def bindE_def MergeT_hasID mergeOps_def)

lemma zip_tl_nth:
  "zip xs (tl xs) = map (\<lambda>i. (xs ! (i - 1), xs ! i)) [1..<length xs]"
  by (rule nth_equalityI) (auto simp: nth_tl)

lemma AssignFreshT_ok:
  "isNonSendable env (simplifyVal env r) \<Longrightarrow>
   \<exists>tr'. AssignFreshT env r tr = Inr ([AssignFresh (nodeID env tr r) (currentInstruction tr)], tr')"
  by (auto simp: AssignFreshT_def lookupNodeID_def bindE_def nodeID_def Let_def split: option.splits)

lemma AssignT_ok:
  "isNonSendable env (simplifyVal env r) \<Longrightarrow> nodeHasID env tr v = Inr True \<Longrightarrow>
   \<exists>tr'. AssignT env r v tr =
     Inr (if nodeID env tr r = nodeID env tr v then []
          else [Assign (nodeID env tr r) (nodeID env tr v) (currentInstruction tr)], tr')"
  by (auto simp: AssignT_def assertE_def nodeHasID_def lookupNodeID_def bindE_def nodeID_def Let_def
           split: option.splits if_splits)


text \<open>
  The sequence of the spec for a call, \<open>applyOpsClaimed\<close>, and the sequence with the
  guards of \<open>Merge\<close> and \<open>Assign\<close> of the source, \<open>applyOpsAmended\<close>. \<open>ops\<close> are the
  non-Sendable operands and \<open>r\<close> is the non-Sendable result, if there is one.
\<close>

definition applyOpsClaimed ::
  "SILEnv \<Rightarrow> Translator \<Rightarrow> bool \<Rightarrow> SILValue list \<Rightarrow> SILValue option \<Rightarrow> PartitionOp list" where
  "applyOpsClaimed env tr crossing ops r =
     (let cur = currentInstruction tr; idOf = nodeID env tr in
      if crossing then
        map (\<lambda>v. Consume (idOf v) cur) ops
        @ (case r of None \<Rightarrow> [] | Some x \<Rightarrow> [AssignFresh (idOf x) cur])
      else if ops = [] then
        (case r of None \<Rightarrow> [] | Some x \<Rightarrow> [AssignFresh (idOf x) cur])
      else if length ops = 1 then
        Require (idOf (ops ! 0)) cur
        # (case r of None \<Rightarrow> [] | Some x \<Rightarrow> [Assign (idOf x) (idOf (ops ! 0)) cur])
      else
        map (\<lambda>i. Merge (idOf (ops ! (i - 1))) (idOf (ops ! i)) cur) [1..<length ops]
        @ (case r of None \<Rightarrow> [] | Some x \<Rightarrow> [Assign (idOf x) (idOf (ops ! 0)) cur]))"

definition applyOpsAmended ::
  "SILEnv \<Rightarrow> Translator \<Rightarrow> bool \<Rightarrow> SILValue list \<Rightarrow> SILValue option \<Rightarrow> PartitionOp list" where
  "applyOpsAmended env tr crossing ops r =
     (let cur = currentInstruction tr; idOf = nodeID env tr in
      if crossing then
        map (\<lambda>v. Consume (idOf v) cur) ops
        @ (case r of None \<Rightarrow> [] | Some x \<Rightarrow> [AssignFresh (idOf x) cur])
      else if ops = [] then
        (case r of None \<Rightarrow> [] | Some x \<Rightarrow> [AssignFresh (idOf x) cur])
      else
        (if length ops = 1 then [Require (idOf (ops ! 0)) cur]
         else concat (map (\<lambda>i. if idOf (ops ! (i - 1)) = idOf (ops ! i) then []
                                 else [Merge (idOf (ops ! (i - 1))) (idOf (ops ! i)) cur])
                          [1..<length ops]))
        @ (case r of None \<Rightarrow> []
           | Some x \<Rightarrow> if idOf x = idOf (ops ! 0) then []
                      else [Assign (idOf x) (idOf (ops ! 0)) cur]))"

lemma mergeAll_index:
  assumes "vs \<noteq> []" and "\<forall>v \<in> set vs. nodeHasID env tr v = Inr True"
  shows "mergeAll env (hd vs) (tl vs) ([], tr) =
     Inr (concat (map (\<lambda>i. if nodeID env tr (vs ! (i - 1)) = nodeID env tr (vs ! i) then []
                             else [Merge (nodeID env tr (vs ! (i - 1))) (nodeID env tr (vs ! i))
                                     (currentInstruction tr)])
                      [1..<length vs]), tr)"
proof -
  have hv: "nodeHasID env tr (hd vs) = Inr True" and rest: "\<forall>v \<in> set (tl vs). nodeHasID env tr v = Inr True"
    using assms by (auto dest: list.set_sel(2))
  have "mergeAll env (hd vs) (tl vs) ([], tr) =
          Inr ([] @ concat (map (\<lambda>(a, b). mergeOps env tr a b) (zip (hd vs # tl vs) (tl vs))), tr)"
    by (rule mergeAll_hasID[OF hv rest])
  also have "hd vs # tl vs = vs" using assms(1) by simp
  also have "zip vs (tl vs) = map (\<lambda>i. (vs ! (i - 1), vs ! i)) [1..<length vs]"
    by (rule zip_tl_nth)
  finally show ?thesis
    by (simp add: mergeOps_def comp_def del: upt_Suc cong: if_cong)
qed


text \<open>
  C1, as amended. Let a call have a result at index 0, let every non-Sendable operand
  have an ID already (the assertions of the source), and let \<open>ops\<close> be the non-Sendable
  operands and \<open>r\<close> the result when it is non-Sendable. Then \<open>translateSILApply\<close> emits:
  for a call that crosses isolation, \<open>Consume(o)\<close> for every \<open>o\<close> in \<open>ops\<close>, then
  \<open>AssignFresh(r)\<close>; otherwise, for no operand, \<open>AssignFresh(r)\<close>; for one, \<open>Require\<close>
  of it; for more, \<open>Merge(ops[i-1], ops[i])\<close> for \<open>i = 1..n-1\<close>, but only where the two
  IDs differ; and then \<open>Assign(r, ops[0])\<close>, but only where the two IDs differ.
\<close>

theorem translateSILApply_sequence:
  assumes res: "getResults inst = r # rs"
    and ids: "\<forall>v \<in> set (filter (isNonSendable env) (getOperandValues inst)).
                nodeHasID env tr v = Inr True"
    and rns: "isNonSendable env r \<Longrightarrow> isNonSendable env (simplifyVal env r)"
  shows "\<exists>tr'. translateSILApply env tr inst =
           Inr (applyOpsAmended env tr (SILApplyCrossesIsolation inst)
                  (filter (isNonSendable env) (getOperandValues inst))
                  (if isNonSendable env r then Some r else None), tr')"
proof -
  define ops where "ops = filter (isNonSendable env) (getOperandValues inst)"
  have r0: "getResult inst 0 = Inr r" by (simp add: getResult_def res)
  have idsO: "\<forall>v \<in> set ops. nodeHasID env tr v = Inr True" using ids by (simp add: ops_def)
  show ?thesis
  proof (cases "SILApplyCrossesIsolation inst")
    case True
    have ca: "consumeAll env ops ([], tr) =
        Inr ([] @ map (\<lambda>v. Consume (nodeID env tr v) (currentInstruction tr)) ops, tr)"
      by (rule consumeAll_hasID[OF idsO])
    show ?thesis
    proof (cases "isNonSendable env r")
      case ns: True
      from AssignFreshT_ok[OF rns[OF ns], of tr] obtain tr' where
        "AssignFreshT env r tr = Inr ([AssignFresh (nodeID env tr r) (currentInstruction tr)], tr')"
        by blast
      then show ?thesis using True ns ca
        by (simp add: translateSILApply_def r0 bindE_def add_to_translation_def
            applyOpsAmended_def Let_def ops_def[symmetric])
    next
      case False
      then show ?thesis using True ca
        by (simp add: translateSILApply_def r0 bindE_def applyOpsAmended_def Let_def
            ops_def[symmetric])
    qed
  next
    case nc: False
    show ?thesis
    proof (cases "ops = []")
      case True
      show ?thesis
      proof (cases "isNonSendable env r")
        case ns: True
        from AssignFreshT_ok[OF rns[OF ns], of tr] obtain tr' where
          "AssignFreshT env r tr = Inr ([AssignFresh (nodeID env tr r) (currentInstruction tr)], tr')"
          by blast
        then show ?thesis using True ns nc
          by (simp add: translateSILApply_def r0 bindE_def add_to_translation_def
              applyOpsAmended_def Let_def ops_def[symmetric])
      next
        case False
        then show ?thesis using True nc
          by (simp add: translateSILApply_def r0 bindE_def applyOpsAmended_def Let_def
              ops_def[symmetric])
      qed
    next
      case ne: False
      then have h: "nodeHasID env tr (hd ops) = Inr True" and h0: "hd ops = ops ! 0"
        using idsO by (auto simp: hd_conv_nth)
      define front where "front =
        (if length ops = 1 then [Require (nodeID env tr (ops ! 0)) (currentInstruction tr)]
         else concat (map (\<lambda>i. if nodeID env tr (ops ! (i - 1)) = nodeID env tr (ops ! i) then []
                                 else [Merge (nodeID env tr (ops ! (i - 1))) (nodeID env tr (ops ! i))
                                         (currentInstruction tr)])
                          [1..<length ops]))"
      have fr: "(if length ops = 1
               then add_to_translation (RequireT env (hd ops)) ([], tr)
               else mergeAll env (hd ops) (tl ops) ([], tr)) = Inr (front, tr)"
        using mergeAll_index[OF ne idsO] RequireT_hasID[OF h]
        by (simp add: front_def add_to_translation_def bindE_def h0)
      have am: "applyOpsAmended env tr False ops ropt =
          front @ (case ropt of None \<Rightarrow> []
                   | Some x \<Rightarrow> if nodeID env tr x = nodeID env tr (ops ! 0) then []
                      else [Assign (nodeID env tr x) (nodeID env tr (ops ! 0)) (currentInstruction tr)])"
        for ropt
        using ne by (simp add: applyOpsAmended_def front_def Let_def cong: if_cong)
      show ?thesis
      proof (cases "isNonSendable env r")
        case ns: True
        from AssignT_ok[OF rns[OF ns] h] obtain tr' where
          "AssignT env r (hd ops) tr =
             Inr (if nodeID env tr r = nodeID env tr (hd ops) then []
                  else [Assign (nodeID env tr r) (nodeID env tr (hd ops)) (currentInstruction tr)], tr')"
          by blast
        then show ?thesis using ne ns nc fr
          by (simp add: translateSILApply_def r0 bindE_def add_to_translation_def
              Let_def ops_def[symmetric] am h0)
      next
        case False
        then show ?thesis using ne nc fr
          by (simp add: translateSILApply_def r0 bindE_def Let_def
              ops_def[symmetric] am)
      qed
    qed
  qed
qed

definition exEnv :: SILEnv where
  "exEnv = \<lparr>isAddress = (\<lambda>v. False), getUnderlyingObject = (\<lambda>v. v),
            getAccessStorageFromAddr = (\<lambda>v. None),
            definingInstKind = (\<lambda>v. if v = 0 then Some FunctionRefInst else None),
            typeLacksSendable = (\<lambda>v. True)\<rparr>"

definition exTranslator :: Translator where
  "exTranslator = \<lparr>nodeIDMap = [1 \<mapsto> 0], nextNodeID = 1, capturedUIValues = {},
                   currentInstruction = Some 7, translationIndex = 1\<rparr>"

definition exApplyTwice :: SILInstruction where
  "exApplyTwice = \<lparr>instId = 7, instKind = ApplyInst, getOperandValues = [0, 1, 1],
                   getResults = [2], crossesIsolation = False\<rparr>"


theorem translateSILApply_sequence_witness:
  "\<exists>tr'. translateSILApply exEnv exTranslator exApplyTwice = Inr ([Assign 1 0 (Some 7)], tr')"
  using translateSILApply_sequence[of exApplyTwice 2 "[]" exEnv exTranslator]
  by (simp add: exEnv_def exTranslator_def exApplyTwice_def isNonSendable_def simplifyVal_def
      nodeHasID_def applyOpsAmended_def nodeID_def SILApplyCrossesIsolation_def Let_def)

text \<open>
  The claim as the spec states it fails on a call that passes one value twice,
  \<open>apply %0(%1, %1)\<close> with the callee a \<open>function_ref\<close>: the spec gives \<open>Merge(0, 0)\<close>
  and then \<open>Assign(1, 0)\<close>, the source emits the \<open>Assign\<close> alone.
\<close>

theorem translateSILApply_claimed_counterexample:
  "map_sum id fst (translateSILApply exEnv exTranslator exApplyTwice) = Inr [Assign 1 0 (Some 7)]
   \<and> applyOpsClaimed exEnv exTranslator (SILApplyCrossesIsolation exApplyTwice)
        (filter (isNonSendable exEnv) (getOperandValues exApplyTwice))
        (if isNonSendable exEnv 2 then Some 2 else None)
      = [Merge 0 0 (Some 7), Assign 1 0 (Some 7)]
   \<and> map_sum id fst (translateSILApply exEnv exTranslator exApplyTwice)
      \<noteq> Inr (applyOpsClaimed exEnv exTranslator (SILApplyCrossesIsolation exApplyTwice)
               (filter (isNonSendable exEnv) (getOperandValues exApplyTwice))
               (if isNonSendable exEnv 2 then Some 2 else None))"
  by (simp add: exEnv_def exTranslator_def exApplyTwice_def translateSILApply_def
      isNonSendable_def simplifyVal_def getResult_def SILApplyCrossesIsolation_def bindE_def
      add_to_translation_def MergeT_def AssignT_def assertE_def nodeHasID_def lookupNodeID_def
      applyOpsClaimed_def nodeID_def Let_def)

section \<open>The result of a call\<close>

text \<open>
  The functions that build operations stop at a failed assertion only: none of them
  reads a result or an operand of the instruction.
\<close>

lemma lookupNodeID_error: "lookupNodeID env tr v = Inl e \<Longrightarrow> e = AssertionFailure"
  by (auto simp: lookupNodeID_def Let_def split: if_splits option.splits)

lemma nodeHasID_error: "nodeHasID env tr v = Inl e \<Longrightarrow> e = AssertionFailure"
  by (auto simp: nodeHasID_def Let_def split: if_splits)

lemma assertE_error:
  "assertE c k = Inl e \<Longrightarrow> (\<And>e'. c = Inl e' \<Longrightarrow> e' = AssertionFailure)
   \<Longrightarrow> (k = Inl e \<Longrightarrow> e = AssertionFailure) \<Longrightarrow> e = AssertionFailure"
  by (auto simp: assertE_def split: sum.splits if_splits)

lemma AssignFreshT_error: "AssignFreshT env v tr = Inl e \<Longrightarrow> e = AssertionFailure"
  by (auto simp: AssignFreshT_def bindE_def split: sum.splits dest: lookupNodeID_error)

lemma ConsumeT_error: "ConsumeT env v tr = Inl e \<Longrightarrow> e = AssertionFailure"
  by (auto simp: ConsumeT_def bindE_def assertE_def split: sum.splits if_splits
           dest: lookupNodeID_error nodeHasID_error)

lemma RequireT_error: "RequireT env v tr = Inl e \<Longrightarrow> e = AssertionFailure"
  by (auto simp: RequireT_def bindE_def assertE_def split: sum.splits if_splits
           dest: lookupNodeID_error nodeHasID_error)

lemma AssignT_error: "AssignT env a b tr = Inl e \<Longrightarrow> e = AssertionFailure"
  by (auto simp: AssignT_def bindE_def assertE_def split: sum.splits if_splits
           dest: nodeHasID_error)
     (blast dest: lookupNodeID_error)+

lemma MergeT_error: "MergeT env a b tr = Inl e \<Longrightarrow> e = AssertionFailure"
  by (auto simp: MergeT_def bindE_def assertE_def split: sum.splits if_splits
           dest: nodeHasID_error)
     (blast dest: lookupNodeID_error)+

lemma add_to_translation_error:
  "add_to_translation emit acc = Inl e \<Longrightarrow> (\<And>tr. emit tr = Inl e \<Longrightarrow> e = AssertionFailure)
   \<Longrightarrow> e = AssertionFailure"
  by (auto simp: add_to_translation_def bindE_def split: sum.splits prod.splits)

lemma consumeAll_error: "consumeAll env vs acc = Inl e \<Longrightarrow> e = AssertionFailure"
proof (induction vs arbitrary: acc)
  case Nil
  then show ?case by simp
next
  case (Cons v vs)
  then show ?case
    by (auto simp: bindE_def split: sum.splits
        dest: add_to_translation_error[where emit = "ConsumeT env v"] ConsumeT_error)
qed

lemma mergeAll_error: "mergeAll env prev vs acc = Inl e \<Longrightarrow> e = AssertionFailure"
proof (induction vs arbitrary: acc prev)
  case Nil
  then show ?case by simp
next
  case (Cons v vs)
  then show ?case
    by (auto simp: bindE_def split: sum.splits
        dest: add_to_translation_error[where emit = "MergeT env prev v"] MergeT_error)
qed


text \<open>
  C9: \<open>translateSILApply\<close> reads the result at index 0 of the instruction before it
  looks at anything else that can fail, whether the call crosses isolation or not. So
  it stops with the error of a missing result exactly when the instruction has no
  result; for an instruction with a result, that branch is never taken.
\<close>

theorem translateSILApply_needs_result:
  "(translateSILApply env tr applyInst = Inl ResultIndexOutOfRange) = (getResults applyInst = [])"
proof (cases "getResults applyInst")
  case Nil
  then show ?thesis by (simp add: translateSILApply_def getResult_def bindE_def)
next
  case (Cons r rs)
  have "translateSILApply env tr applyInst = Inl e \<Longrightarrow> e = AssertionFailure" for e
    by (auto simp: translateSILApply_def getResult_def Cons bindE_def Let_def
        split: if_splits sum.splits
        dest: consumeAll_error mergeAll_error
          add_to_translation_error[where emit = "AssignFreshT env r"] AssignFreshT_error
          add_to_translation_error[where emit = "RequireT env v" for v] RequireT_error
          add_to_translation_error[where emit = "AssignT env r v" for v] AssignT_error)
  then show ?thesis using Cons by auto
qed

definition exTryApply :: SILInstruction where
  "exTryApply = \<lparr>instId = 8, instKind = TryApplyInst, getOperandValues = [0, 1],
                 getResults = [], crossesIsolation = True\<rparr>"

theorem translateSILApply_needs_result_witness:
  "translateSILApply exEnv exTranslator exTryApply = Inl ResultIndexOutOfRange
   \<and> translateSILApply exEnv exTranslator exApplyTwice \<noteq> Inl ResultIndexOutOfRange"
  using translateSILApply_needs_result[of exEnv exTranslator exTryApply]
    translateSILApply_needs_result[of exEnv exTranslator exApplyTwice]
  by (simp add: exTryApply_def exApplyTwice_def)

section \<open>The early returns of the pass\<close>

text \<open>
  C8: for a function with no \<open>DeclContext\<close>, \<open>run\<close> returns at once, whatever the fuel:
  no \<open>PartitionAnalysis\<close> is built and no diagnostic is emitted, also when the feature
  \<open>DeferredSendableChecking\<close> is on and the protocol \<open>Sendable\<close> exists. The pass returns
  early exactly when one of the three conditions fails.
\<close>

theorem run_without_DeclContext:
  "(\<not> hasDeclContext fn \<longrightarrow>
      run fuel impl fn = Some (Inr ReturnedEarly)
      \<and> map_option (map_sum id emitted) (run fuel impl fn) = Some (Inr []))
   \<and> ((run fuel impl fn = Some (Inr ReturnedEarly))
        = (\<not> (hasDeclContext fn \<and> hasDeferredSendableChecking fn \<and> hasSendableProtocol fn)))"
  by (auto simp: run_def bindR_def split: option.splits sum.splits)

theorem run_without_DeclContext_witness:
  "run 0 specPartition (exDiamond\<lparr>hasDeclContext := False\<rparr>) = Some (Inr ReturnedEarly)
   \<and> run 10 specPartition exDiamond \<noteq> Some (Inr ReturnedEarly)"
  using run_without_DeclContext[of "exDiamond\<lparr>hasDeclContext := False\<rparr>" 0 specPartition]
    run_without_DeclContext[of exDiamond 10 specPartition]
  by (simp add: exDiamond_def)

section \<open>What the accumulator reports\<close>

text \<open>
  The calls of \<open>accumulateConsumedReason\<close> made on an accumulator are a list \<open>steps\<close> of
  pairs of a require operation and a reason. \<open>insertedPairs\<close> lists, in order, the
  insertions \<open>requirementsForConsumptions[consumeOp].insert({requireOp, distance})\<close> that
  these calls make; \<open>consumesOf\<close> is the set of the consume operations inserted, and
  \<open>requiresOf\<close> the set of the pairs inserted for one of them. The counts of the source
  are \<open>unsigned\<close>; they are natural numbers here, as a set of 2^32 entries is out of
  reach.
\<close>

definition insertedPairs :: "('o \<times> (nat \<times> 'o list) list) list \<Rightarrow> ('o \<times> nat \<times> 'o) list" where
  "insertedPairs steps =
     concat (map (\<lambda>(requireOp, consumedReason).
               concat (map (\<lambda>(distance, consumeOps).
                         map (\<lambda>consumeOp. (consumeOp, distance, requireOp)) consumeOps)
                       consumedReason))
             steps)"

definition accumulateAll ::
  "('o::linorder \<times> (nat \<times> 'o list) list) list \<Rightarrow> 'o ConsumeRequireAccumulator" where
  "accumulateAll steps =
     fold (\<lambda>(requireOp, consumedReason). accumulateConsumedReason requireOp consumedReason) steps []"

definition consumesOf :: "('o \<times> (nat \<times> 'o list) list) list \<Rightarrow> 'o set" where
  "consumesOf steps = set (map fst (insertedPairs steps))"

definition requiresOf :: "('o \<times> (nat \<times> 'o list) list) list \<Rightarrow> 'o \<Rightarrow> (nat \<times> 'o) set" where
  "requiresOf steps c = set (map snd (filter (\<lambda>p. fst p = c) (insertedPairs steps)))"

definition accInv :: "'o::linorder ConsumeRequireAccumulator \<Rightarrow> bool" where
  "accInv acc = (sorted (map fst acc) \<and> distinct (map fst acc)
                 \<and> (\<forall>e \<in> set acc. sorted (snd e) \<and> distinct (snd e)))"

definition reqList :: "'o ConsumeRequireAccumulator \<Rightarrow> 'o \<Rightarrow> 'o PartitionOpAtDistance list" where
  "reqList acc c = (case map_of acc c of None \<Rightarrow> [] | Some rs \<Rightarrow> rs)"

lemma setInsert_props:
  "sorted xs \<Longrightarrow> distinct xs \<Longrightarrow>
   sorted (setInsert x xs) \<and> distinct (setInsert x xs) \<and> set (setInsert x xs) = insert x (set xs)"
  by (auto simp: setInsert_def sorted_insort distinct_insort set_insort_key)

lemma keys_insertRequirement:
  "fst ` set (insertRequirement c x acc) = insert c (fst ` set acc)"
  by (induction c x acc rule: insertRequirement.induct) auto

lemma accInv_insertRequirement:
  "accInv acc \<Longrightarrow> accInv (insertRequirement c x acc)"
proof (induction c x acc rule: insertRequirement.induct)
  case (1 c x)
  then show ?case by (simp add: accInv_def)
next
  case (2 c x k rs rest)
  have rest: "accInv rest" using 2(2) by (simp add: accInv_def)
  show ?case
  proof (cases "c = k")
    case True
    then show ?thesis using 2(2) setInsert_props[of rs x] by (auto simp: accInv_def)
  next
    case ne: False
    show ?thesis
    proof (cases "c < k")
      case True
      then show ?thesis using 2(2) ne by (auto simp: accInv_def)
    next
      case False
      then have kc: "k < c" using ne by simp
      have ih: "accInv (insertRequirement c x rest)" using 2(1)[OF ne False rest] .
      have keys: "set (map fst (insertRequirement c x rest)) = insert c (set (map fst rest))"
        using keys_insertRequirement[of c x rest] by simp
      show ?thesis using 2(2) ih kc ne False keys
        by (auto simp: accInv_def simp del: set_map)
    qed
  qed
qed

lemma map_of_notin: "k \<notin> fst ` set acc \<Longrightarrow> map_of acc k = None"
  by (simp add: map_of_eq_None_iff)

lemma reqList_insertRequirement:
  "accInv acc \<Longrightarrow>
   reqList (insertRequirement c x acc) k =
     (if k = c then setInsert x (reqList acc c) else reqList acc k)"
proof (induction c x acc rule: insertRequirement.induct)
  case (1 c x)
  then show ?case by (simp add: reqList_def setInsert_def)
next
  case (2 c x k0 rs rest)
  have rest: "accInv rest" using 2(2) by (simp add: accInv_def)
  show ?case
  proof (cases "c = k0")
    case True
    then show ?thesis by (simp add: reqList_def)
  next
    case ne: False
    show ?thesis
    proof (cases "c < k0")
      case True
      have "c \<notin> fst ` set ((k0, rs) # rest)" using 2(2) True by (auto simp: accInv_def)
      then have "map_of ((k0, rs) # rest) c = None" by (rule map_of_notin)
      then show ?thesis using True ne by (simp add: reqList_def setInsert_def)
    next
      case False
      have ih: "reqList (insertRequirement c x rest) k =
                  (if k = c then setInsert x (reqList rest c) else reqList rest k)"
        using 2(1)[OF ne False rest] .
      show ?thesis using ih ne False by (auto simp: reqList_def)
    qed
  qed
qed

lemma fold_insertRequirement:
  "accInv acc \<Longrightarrow>
   accInv (fold (\<lambda>(c, x). insertRequirement c x) ps acc)
   \<and> fst ` set (fold (\<lambda>(c, x). insertRequirement c x) ps acc) = fst ` set acc \<union> fst ` set ps
   \<and> (\<forall>k. set (reqList (fold (\<lambda>(c, x). insertRequirement c x) ps acc) k)
          = set (reqList acc k) \<union> snd ` set (filter (\<lambda>p. fst p = k) ps))"
proof (induction ps arbitrary: acc)
  case Nil
  then show ?case by simp
next
  case (Cons p ps)
  obtain c x where p: "p = (c, x)" by (cases p)
  let ?acc1 = "insertRequirement c x acc"
  have inv1: "accInv ?acc1" using Cons.prems by (rule accInv_insertRequirement)
  have sortedc: "sorted (reqList acc c) \<and> distinct (reqList acc c)"
    using Cons.prems by (auto simp: reqList_def accInv_def split: option.splits dest!: map_of_SomeD)
  have set1: "set (reqList ?acc1 k) = (if k = c then insert x (set (reqList acc c)) else set (reqList acc k))" for k
    using reqList_insertRequirement[OF Cons.prems, of c x k] setInsert_props[of "reqList acc c" x] sortedc
    by simp
  from Cons.IH[OF inv1] show ?case
    unfolding p by (auto simp: keys_insertRequirement set1)
qed

lemma accumulateAll_fold:
  "fold (\<lambda>(requireOp, consumedReason). accumulateConsumedReason requireOp consumedReason) steps acc
   = fold (\<lambda>(c, x). insertRequirement c x) (insertedPairs steps) acc"
proof (induction steps arbitrary: acc)
  case Nil
  then show ?case by (simp add: insertedPairs_def)
next
  case (Cons s steps)
  obtain r reason where s: "s = (r, reason)" by (cases s)
  have inner: "fold (\<lambda>consumeOp. insertRequirement consumeOp (d, r)) ops a
      = fold (\<lambda>(c, x). insertRequirement c x) (map (\<lambda>consumeOp. (consumeOp, d, r)) ops) a" for d ops a
    by (induction ops arbitrary: a) simp_all
  have one: "accumulateConsumedReason r reason a
      = fold (\<lambda>(c, x). insertRequirement c x)
          (concat (map (\<lambda>(distance, consumeOps). map (\<lambda>consumeOp. (consumeOp, distance, r)) consumeOps) reason)) a" for a
    unfolding accumulateConsumedReason_def
    by (induction reason arbitrary: a) (auto simp: inner)
  show ?case using Cons.IH by (simp add: s one insertedPairs_def)
qed

lemma accInv_reconstruct:
  assumes "accInv acc"
  shows "acc = map (\<lambda>k. (k, sorted_list_of_set (set (reqList acc k)))) (sorted_list_of_set (fst ` set acc))"
proof -
  have keys: "sorted_list_of_set (fst ` set acc) = map fst acc"
    using assms sorted_list_of_set.idem_if_sorted_distinct[of "map fst acc"]
    by (simp add: accInv_def)
  have each: "(fst e, sorted_list_of_set (set (reqList acc (fst e)))) = e" if "e \<in> set acc" for e
  proof -
    obtain k rs where e: "e = (k, rs)" by (cases e)
    have "map_of acc k = Some rs" using assms that e by (simp add: accInv_def)
    moreover have "sorted rs" "distinct rs" using assms that e by (auto simp: accInv_def)
    then have "sorted_list_of_set (set rs) = rs"
      using sorted_list_of_set.idem_if_sorted_distinct[of rs] by simp
    ultimately show ?thesis by (simp add: e reqList_def)
  qed
  have "map (\<lambda>e. (fst e, sorted_list_of_set (set (reqList acc (fst e))))) acc = acc"
    using each by (simp add: map_idI)
  then show ?thesis unfolding keys by (simp add: comp_def)
qed

lemma accumulateAll_eq:
  "accumulateAll steps =
     map (\<lambda>c. (c, sorted_list_of_set (requiresOf steps c))) (sorted_list_of_set (consumesOf steps))"
proof -
  have inv0: "accInv ([] :: 'a ConsumeRequireAccumulator)" by (simp add: accInv_def)
  let ?acc = "accumulateAll steps"
  have eq: "?acc = fold (\<lambda>(c, x). insertRequirement c x) (insertedPairs steps) []"
    unfolding accumulateAll_def by (rule accumulateAll_fold)
  from fold_insertRequirement[OF inv0, of "insertedPairs steps"]
  have inv: "accInv ?acc" and keys: "fst ` set ?acc = consumesOf steps"
    and reqs: "\<And>k. set (reqList ?acc k) = requiresOf steps k"
    unfolding eq[symmetric] by (auto simp: consumesOf_def requiresOf_def reqList_def)
  show ?thesis using accInv_reconstruct[OF inv] unfolding keys reqs .
qed

lemma processRequires_take:
  "processRequires k rs = map (\<lambda>x. ProcessRequireOp (snd x)) (take k rs)"
  by (induction k rs rule: processRequires.induct) (auto simp: take_Cons')


text \<open>
  C6: with \<open>k = NUM_REQUIREMENTS_TO_DIAGNOSE = 5\<close>, \<open>forEachConsumeRequire\<close> makes, for
  every consume operation of the accumulator, with \<open>m\<close> pairs of a require and a
  distance: one call of the consume callback, with \<open>numProcessed = min m 5\<close> and
  \<open>numSkipped = m - min m 5\<close>, and then \<open>min m 5\<close> calls of the require callback, on
  the first pairs in ascending order of the distance, then of the operation.
\<close>

theorem forEachConsumeRequire_calls:
  "forEachConsumeRequire NUM_REQUIREMENTS_TO_DIAGNOSE (accumulateAll steps) =
     concat (map (\<lambda>consumeOp.
                let m = card (requiresOf steps consumeOp) in
                ProcessConsumeOp consumeOp (min m 5) (m - min m 5)
                # map (\<lambda>x. ProcessRequireOp (snd x))
                    (take (min m 5) (sorted_list_of_set (requiresOf steps consumeOp))))
             (sorted_list_of_set (consumesOf steps)))"
proof -
  have fin: "finite (requiresOf steps c)" for c by (simp add: requiresOf_def)
  have len: "length (sorted_list_of_set (requiresOf steps c)) = card (requiresOf steps c)" for c
    by simp
  have tk: "take (min (card (requiresOf steps c)) 5) (sorted_list_of_set (requiresOf steps c))
      = take 5 (sorted_list_of_set (requiresOf steps c))" for c
    using len[of c] by (simp add: min_def)
  show ?thesis
    unfolding accumulateAll_eq forEachConsumeRequire_def NUM_REQUIREMENTS_TO_DIAGNOSE_def
    by (simp add: comp_def processRequires_take Let_def tk)
qed

definition exRequires :: "(PartitionOp \<times> ConsumedReason) list" where
  "exRequires =
     [(Require 0 (Some 21), [(3, [Consume 0 (Some 11)])]),
      (Require 0 (Some 22), [(0, [Consume 0 (Some 11)])]),
      (Require 0 (Some 23), [(2, [Consume 0 (Some 11)])]),
      (Require 0 (Some 24), [(0, [Consume 0 (Some 11)])]),
      (Require 0 (Some 25), [(1, [Consume 0 (Some 11)])]),
      (Require 0 (Some 26), [(5, [Consume 0 (Some 11)])]),
      (Require 0 (Some 27), [(4, [Consume 0 (Some 11)])])]"

lemma exRequires_calls:
  "concat (map (\<lambda>consumeOp.
                let m = card (requiresOf exRequires consumeOp) in
                ProcessConsumeOp consumeOp (min m 5) (m - min m 5)
                # map (\<lambda>x. ProcessRequireOp (snd x))
                    (take (min m 5) (sorted_list_of_set (requiresOf exRequires consumeOp))))
             (sorted_list_of_set (consumesOf exRequires)))
   = [ProcessConsumeOp (Consume 0 (Some 11)) 5 2,
      ProcessRequireOp (Require 0 (Some 22)), ProcessRequireOp (Require 0 (Some 24)),
      ProcessRequireOp (Require 0 (Some 25)), ProcessRequireOp (Require 0 (Some 23)),
      ProcessRequireOp (Require 0 (Some 21))]"
  by code_simp

theorem forEachConsumeRequire_calls_witness:
  "forEachConsumeRequire NUM_REQUIREMENTS_TO_DIAGNOSE (accumulateAll exRequires)
   = [ProcessConsumeOp (Consume 0 (Some 11)) 5 2,
      ProcessRequireOp (Require 0 (Some 22)), ProcessRequireOp (Require 0 (Some 24)),
      ProcessRequireOp (Require 0 (Some 25)), ProcessRequireOp (Require 0 (Some 23)),
      ProcessRequireOp (Require 0 (Some 21))]"
  by (rule trans[OF forEachConsumeRequire_calls exRequires_calls])

definition processedConsumeOps :: "'o AccumulatorCall list \<Rightarrow> 'o list" where
  "processedConsumeOps calls =
     concat (map (\<lambda>call. case call of ProcessConsumeOp c n h \<Rightarrow> [c] | ProcessRequireOp r \<Rightarrow> [])
               calls)"

definition insertionOrder :: "('o \<times> (nat \<times> 'o list) list) list \<Rightarrow> 'o list" where
  "insertionOrder steps = rev (remdups (rev (map fst (insertedPairs steps))))"

lemma processedConsumeOps_forEach:
  "processedConsumeOps (forEachConsumeRequire k acc) = map fst acc"
proof -
  have none: "processedConsumeOps (map (\<lambda>x. ProcessRequireOp (snd x)) xs) = []" for xs :: "(nat \<times> 'a) list"
    by (induction xs) (simp_all add: processedConsumeOps_def)
  have app: "processedConsumeOps (xs @ ys) = processedConsumeOps xs @ processedConsumeOps ys"
    for xs ys :: "'a AccumulatorCall list"
    by (simp add: processedConsumeOps_def)
  have cons: "processedConsumeOps (ProcessConsumeOp c n h # xs) = c # processedConsumeOps xs"
    for c n h and xs :: "'a AccumulatorCall list"
    by (simp add: processedConsumeOps_def)
  show ?thesis
    by (induction acc)
       (auto simp: forEachConsumeRequire_def app cons none processRequires_take Let_def
          processedConsumeOps_def[of "[]"])
qed


text \<open>
  C7, as amended: \<open>forEachConsumeRequire\<close> goes through the consume operations in
  ascending order of \<open>operator<\<close> of \<open>PartitionOp\<close>, the order of the keys of the
  \<open>std::map\<close>, each once, in whatever order they were inserted.
\<close>

theorem forEachConsumeRequire_key_order:
  "processedConsumeOps (forEachConsumeRequire k (accumulateAll steps))
   = sorted_list_of_set (consumesOf steps)"
  by (simp add: processedConsumeOps_forEach accumulateAll_eq comp_def)

definition exFirstLater :: "(PartitionOp \<times> ConsumedReason) list" where
  "exFirstLater =
     [(Require 1 (Some 21), [(0, [Consume 1 (Some 12)])]),
      (Require 0 (Some 22), [(0, [Consume 0 (Some 11)])])]"

lemma exFirstLater_sorted:
  "sorted_list_of_set (consumesOf exFirstLater) = [Consume 0 (Some 11), Consume 1 (Some 12)]"
  by code_simp

theorem forEachConsumeRequire_key_order_witness:
  "processedConsumeOps (forEachConsumeRequire 5 (accumulateAll exFirstLater))
   = [Consume 0 (Some 11), Consume 1 (Some 12)]"
  by (rule trans[OF forEachConsumeRequire_key_order exFirstLater_sorted])


text \<open>
  The claim as the spec states it, the order of insertion, fails: the two lists of
  calls below insert the same two consume operations in opposite orders and are gone
  through in the same order.
\<close>

theorem forEachConsumeRequire_insertion_order_counterexample:
  "processedConsumeOps (forEachConsumeRequire 5 (accumulateAll exFirstLater))
     = [Consume 0 (Some 11), Consume 1 (Some 12)]
   \<and> insertionOrder exFirstLater = [Consume 1 (Some 12), Consume 0 (Some 11)]
   \<and> processedConsumeOps (forEachConsumeRequire 5 (accumulateAll exFirstLater))
     \<noteq> insertionOrder exFirstLater
   \<and> processedConsumeOps (forEachConsumeRequire 5 (accumulateAll (rev exFirstLater)))
     = processedConsumeOps (forEachConsumeRequire 5 (accumulateAll exFirstLater))
   \<and> insertionOrder (rev exFirstLater) \<noteq> insertionOrder exFirstLater"
  by code_simp


section \<open>Pairs of values with one ID\<close>

text \<open>
  The translator looks a value up by \<open>simplifyVal\<close> of it, so two values with the same
  \<open>simplifyVal\<close> have the same ID and the same answers.
\<close>

lemma lookupNodeID_same:
  "simplifyVal env a = simplifyVal env b \<Longrightarrow> lookupNodeID env tr a = lookupNodeID env tr b"
  by (simp add: lookupNodeID_def)

lemma nodeHasID_same:
  "simplifyVal env a = simplifyVal env b \<Longrightarrow> nodeHasID env tr a = nodeHasID env tr b"
  by (simp add: nodeHasID_def)

lemma isNonSendable_same:
  "simplifyVal env a = simplifyVal env b \<Longrightarrow> isNonSendable env a = isNonSendable env b"
  by (simp add: isNonSendable_def)

lemma AssignT_same:
  assumes "simplifyVal env tgt = simplifyVal env src"
  shows "AssignT env tgt src tr \<in> {Inl AssertionFailure, Inr ([], tr)}"
proof (cases "nodeHasID env tr src")
  case (Inl e)
  then show ?thesis using nodeHasID_error[OF Inl] by (simp add: AssignT_def assertE_def)
next
  case (Inr b)
  show ?thesis
  proof (cases b)
    case True
    then have "lookupNodeID env tr src = Inr (nodeID env tr src, tr)"
      using Inr by (simp add: lookupNodeID_hasID)
    then show ?thesis using Inr True lookupNodeID_same[OF assms, of tr]
      by (simp add: AssignT_def assertE_def bindE_def)
  next
    case False
    then show ?thesis using Inr by (simp add: AssignT_def assertE_def)
  qed
qed

lemma MergeT_same:
  assumes "simplifyVal env fst0 = simplifyVal env snd0"
  shows "MergeT env fst0 snd0 tr \<in> {Inl AssertionFailure, Inr ([], tr)}"
proof (cases "nodeHasID env tr snd0")
  case (Inl e)
  then show ?thesis using nodeHasID_error[OF Inl] nodeHasID_same[OF assms, of tr]
    by (simp add: MergeT_def assertE_def bindE_def)
next
  case (Inr b)
  show ?thesis
  proof (cases b)
    case True
    then have "lookupNodeID env tr snd0 = Inr (nodeID env tr snd0, tr)"
      using Inr by (simp add: lookupNodeID_hasID)
    then show ?thesis using Inr True lookupNodeID_same[OF assms, of tr] nodeHasID_same[OF assms, of tr]
      by (simp add: MergeT_def assertE_def bindE_def)
  next
    case False
    then show ?thesis using Inr nodeHasID_same[OF assms, of tr]
      by (simp add: MergeT_def assertE_def bindE_def)
  qed
qed

lemma translateSILAssign_same:
  assumes "simplifyVal env tgt = simplifyVal env src"
  shows "translateSILAssign env tgt src tr \<in> {Inl AssertionFailure, Inr ([], tr)}"
  using AssignT_same[OF assms, of tr] isNonSendable_same[OF assms]
  by (simp add: translateSILAssign_def)

lemma translateSILMerge_same:
  assumes "simplifyVal env fst0 = simplifyVal env snd0"
  shows "translateSILMerge env fst0 snd0 tr \<in> {Inl AssertionFailure, Inr ([], tr)}"
  using MergeT_same[OF assms, of tr]
  by (simp add: translateSILMerge_def)

lemma translateSILStore_same:
  assumes "simplifyVal env tgt = simplifyVal env src"
  shows "translateSILStore env tgt src tr \<in> {Inl AssertionFailure, Inr ([], tr)}"
  using translateSILAssign_same[OF assms, of tr] translateSILMerge_same[OF assms, of tr]
  by (simp add: translateSILStore_def)


text \<open>
  The instructions that the translator turns into one assignment or one store, with
  their pair of values: the result and the operand for the first kind, the destination
  (operand 1) and the source (operand 0) for the second.
\<close>

definition assignLikeKinds :: "SILInstructionKind set" where
  "assignLikeKinds =
     {AddressToPointerInst, BeginAccessInst, BeginBorrowInst, CopyValueInst,
      ConvertEscapeToNoEscapeInst, ConvertFunctionInst, IndexAddrInst,
      InitExistentialAddrInst, LoadInst, LoadBorrowInst, LoadWeakInst,
      PointerToAddressInst, RefElementAddrInst, StrongCopyUnownedValueInst,
      TailAddrInst, UncheckedAddrCastInst, UncheckedOwnershipConversionInst,
      UncheckedRefCastInst}"

definition storeLikeKinds :: "SILInstructionKind set" where
  "storeLikeKinds = {CopyAddrInst, ExplicitCopyAddrInst, StoreInst, StoreBorrowInst, StoreWeakInst}"

definition pairOfInstruction :: "SILInstruction \<Rightarrow> (SILValue \<times> SILValue) option" where
  "pairOfInstruction inst =
     (if instKind inst \<in> assignLikeKinds then
        (case (getResults inst, getOperandValues inst) of
           (r # rs, v # vs) \<Rightarrow> Some (r, v) | _ \<Rightarrow> None)
      else if instKind inst \<in> storeLikeKinds then
        (case getOperandValues inst of src # tgt # vs \<Rightarrow> Some (tgt, src) | _ \<Rightarrow> None)
      else None)"

lemma translateSILInstruction_pair:
  assumes "pairOfInstruction inst = Some (tgt, src)"
  shows "translateSILInstruction env tr inst =
     (let tr1 = tr\<lparr>translationIndex := translationIndex tr + 1,
                   currentInstruction := Some (instId inst)\<rparr> in
      if instKind inst \<in> assignLikeKinds then translateSILAssign env tgt src tr1
      else translateSILStore env tgt src tr1)"
proof (cases "instKind inst \<in> assignLikeKinds")
  case True
  then obtain rs vs where "getResults inst = tgt # rs" "getOperandValues inst = src # vs"
    using assms by (auto simp: pairOfInstruction_def split: list.splits)
  then show ?thesis using True
    by (auto simp: translateSILInstruction_def assignLikeKinds_def Let_def getResult_def
        getOperand_def bindE_def)
next
  case False
  then have st: "instKind inst \<in> storeLikeKinds"
    using assms by (auto simp: pairOfInstruction_def split: if_splits)
  then obtain vs where "getOperandValues inst = src # tgt # vs"
    using assms False by (auto simp: pairOfInstruction_def split: list.splits)
  then show ?thesis using False st
    by (auto simp: translateSILInstruction_def assignLikeKinds_def storeLikeKinds_def Let_def
        getOperand_def bindE_def)
qed


text \<open>
  C10: when the two values of an assignment or a merge have the same \<open>simplifyVal\<close>,
  and so the same ID, the translator emits no operation for the pair (or stops at a
  failed assertion): in \<open>Assign\<close> and \<open>Merge\<close>, in \<open>translateSILAssign\<close>,
  \<open>translateSILMerge\<close> and \<open>translateSILStore\<close>, which the projections, stores,
  copy-addrs, tuple destructures and the merges of call operands go through. An
  instruction translated as such a pair emits nothing, mints no ID, and the replay of
  what it emits leaves any partition as it is.
\<close>

theorem same_ID_emits_no_op:
  assumes same: "simplifyVal env tgt = simplifyVal env src"
  shows "AssignT env tgt src tr \<in> {Inl AssertionFailure, Inr ([], tr)}
    \<and> MergeT env tgt src tr \<in> {Inl AssertionFailure, Inr ([], tr)}
    \<and> translateSILAssign env tgt src tr \<in> {Inl AssertionFailure, Inr ([], tr)}
    \<and> translateSILMerge env tgt src tr \<in> {Inl AssertionFailure, Inr ([], tr)}
    \<and> translateSILStore env tgt src tr \<in> {Inl AssertionFailure, Inr ([], tr)}
    \<and> (pairOfInstruction inst = Some (tgt, src) \<longrightarrow>
         translateSILInstruction env tr inst
           \<in> {Inl AssertionFailure,
              Inr ([], tr\<lparr>translationIndex := translationIndex tr + 1,
                           currentInstruction := Some (instId inst)\<rparr>)})
    \<and> (pairOfInstruction inst = Some (tgt, src)
         \<and> translateSILInstruction env tr inst = Inr (ops, tr') \<longrightarrow>
         ops = [] \<and> nodeIDMap tr' = nodeIDMap tr \<and> foldl (applyOp impl) P ops = P)"
proof -
  let ?tr1 = "tr\<lparr>translationIndex := translationIndex tr + 1,
                  currentInstruction := Some (instId inst)\<rparr>"
  have inst: "translateSILInstruction env tr inst \<in> {Inl AssertionFailure, Inr ([], ?tr1)}"
    if "pairOfInstruction inst = Some (tgt, src)"
    using translateSILInstruction_pair[OF that, of env tr]
      translateSILAssign_same[OF same, of ?tr1] translateSILStore_same[OF same, of ?tr1]
    by (auto simp: Let_def split: if_splits)
  have last: "ops = [] \<and> nodeIDMap tr' = nodeIDMap tr \<and> foldl (applyOp impl) P ops = P"
    if "pairOfInstruction inst = Some (tgt, src)" "translateSILInstruction env tr inst = Inr (ops, tr')"
    using inst[OF that(1)] that(2) by auto
  show ?thesis
    using AssignT_same[OF same, of tr] MergeT_same[OF same, of tr]
      translateSILAssign_same[OF same, of tr] translateSILMerge_same[OF same, of tr]
      translateSILStore_same[OF same, of tr] inst last
    by blast
qed

definition exBorrowEnv :: SILEnv where
  "exBorrowEnv = \<lparr>isAddress = (\<lambda>v. False),
            getUnderlyingObject = (\<lambda>v. if v = 5 then 1 else v),
            getAccessStorageFromAddr = (\<lambda>v. None),
            definingInstKind = (\<lambda>v. if v = 0 then Some FunctionRefInst else None),
            typeLacksSendable = (\<lambda>v. True)\<rparr>"

definition exBeginBorrow :: SILInstruction where
  "exBeginBorrow = \<lparr>instId = 9, instKind = BeginBorrowInst, getOperandValues = [1],
                   getResults = [5], crossesIsolation = False\<rparr>"

theorem same_ID_emits_no_op_witness:
  "simplifyVal exBorrowEnv 5 = simplifyVal exBorrowEnv 1
   \<and> pairOfInstruction exBeginBorrow = Some (5, 1)
   \<and> translateSILInstruction exBorrowEnv exTranslator exBeginBorrow
       = Inr ([], exTranslator\<lparr>translationIndex := 2, currentInstruction := Some 9\<rparr>)
   \<and> MergeT exBorrowEnv 5 1 exTranslator = Inr ([], exTranslator)"
proof -
  have same: "simplifyVal exBorrowEnv 5 = simplifyVal exBorrowEnv 1"
    by (simp add: exBorrowEnv_def simplifyVal_def)
  have pair: "pairOfInstruction exBeginBorrow = Some (5, 1)"
    by (simp add: pairOfInstruction_def exBeginBorrow_def assignLikeKinds_def)
  have noAssert: "translateSILInstruction exBorrowEnv exTranslator exBeginBorrow \<noteq> Inl AssertionFailure"
    "MergeT exBorrowEnv 5 1 exTranslator \<noteq> Inl AssertionFailure"
    by (simp_all add: translateSILInstruction_def exBeginBorrow_def exBorrowEnv_def exTranslator_def
        translateSILAssign_def AssignT_def MergeT_def assertE_def bindE_def nodeHasID_def lookupNodeID_def
        isNonSendable_def simplifyVal_def getResult_def getOperand_def Let_def)
  have upd: "exTranslator\<lparr>translationIndex := translationIndex exTranslator + 1,
                            currentInstruction := Some (instId exBeginBorrow)\<rparr>
             = exTranslator\<lparr>translationIndex := 2, currentInstruction := Some 9\<rparr>"
    by (simp add: exTranslator_def exBeginBorrow_def)
  note T = same_ID_emits_no_op[OF same, of exTranslator exBeginBorrow]
  have m: "MergeT exBorrowEnv 5 1 exTranslator \<in> {Inl AssertionFailure, Inr ([], exTranslator)}"
    by (rule T[THEN conjunct2, THEN conjunct1])
  have i: "translateSILInstruction exBorrowEnv exTranslator exBeginBorrow
           \<in> {Inl AssertionFailure,
              Inr ([], exTranslator\<lparr>translationIndex := 2, currentInstruction := Some 9\<rparr>)}"
    using T[THEN conjunct2, THEN conjunct2, THEN conjunct2, THEN conjunct2, THEN conjunct2,
            THEN conjunct1, THEN mp, OF pair]
    unfolding upd .
  have m': "MergeT exBorrowEnv 5 1 exTranslator = Inr ([], exTranslator)"
    using m noAssert(2) by simp
  have i': "translateSILInstruction exBorrowEnv exTranslator exBeginBorrow
           = Inr ([], exTranslator\<lparr>translationIndex := 2, currentInstruction := Some 9\<rparr>)"
    using i noAssert(1) by simp
  show ?thesis using same pair m' i' by (intro conjI)
qed


section \<open>One step of the solver\<close>

text \<open>
  The step of the solver on one block, in the words of the spec. The block is marked
  as reached and its flag is cleared; \<open>exits\<close> are the exit partitions of its
  predecessors that are reached then, in the order of the predecessors; \<open>joinList\<close>
  is their join, the default partition for none. With at least one exit and a join
  equal to the entry partition, nothing else happens. Otherwise the entry partition
  is set, the operations of the block are replayed from it, the exit partition is set
  to the outcome, and when that changed it every successor is flagged. For a block
  with no reached predecessor the spec sets the entry partition to the join as well
  (\<open>keepEntryWithoutPreds = False\<close>); the source leaves it as it is (\<open>True\<close>).
\<close>

definition markReached :: "'p PartitionAnalysis \<Rightarrow> nat \<Rightarrow> nat \<Rightarrow> 'p BlockPartitionState" where
  "markReached pa block =
     (blockStates pa)(block := (blockStates pa block)\<lparr>needsUpdate := False, reached := True\<rparr>)"

definition reachedPredExits ::
  "SILFunction \<Rightarrow> (nat \<Rightarrow> 'p BlockPartitionState) \<Rightarrow> nat \<Rightarrow> 'p list" where
  "reachedPredExits fn states block =
     map (\<lambda>p. exitPartition (states p)) (filter (\<lambda>p. reached (states p)) (getPredecessorBlocks fn block))"

definition joinList :: "'p PartitionImpl \<Rightarrow> 'p list \<Rightarrow> 'p" where
  "joinList impl exits =
     (case exits of [] \<Rightarrow> emptyPartition impl | e # rest \<Rightarrow> foldl (join impl) e rest)"

definition flagAll :: "nat list \<Rightarrow> (nat \<Rightarrow> 'p BlockPartitionState) \<Rightarrow> nat \<Rightarrow> 'p BlockPartitionState" where
  "flagAll succs states = (\<lambda>b. if b \<in> set succs then (states b)\<lparr>needsUpdate := True\<rparr> else states b)"

definition solveBlockWith ::
  "bool \<Rightarrow> 'p PartitionImpl \<Rightarrow> SILFunction \<Rightarrow> nat \<Rightarrow> 'p PartitionAnalysis \<times> bool
   \<Rightarrow> error + ('p PartitionAnalysis \<times> bool)" where
  "solveBlockWith keepEntryWithoutPreds impl fn block acc =
     (case acc of (pa, anyNeedUpdate) \<Rightarrow>
      let states1 = markReached pa block;
          exits = reachedPredExits fn states1 block;
          newEntry = joinList impl exits
      in
      if exits \<noteq> [] \<and> equals impl newEntry (entryPartition (blockStates pa block))
      then Inr (pa\<lparr>blockStates := states1\<rparr>, anyNeedUpdate)
      else
        let entry1 = (if exits = [] \<and> keepEntryWithoutPreds
                      then entryPartition (blockStates pa block) else newEntry)
        in
        bindE (ensureBlockPartitionOpsPopulated fn block (translator pa)
                 ((states1 block)\<lparr>entryPartition := entry1\<rparr>))
          (\<lambda>(state, tr).
             let exit1 = foldl (applyOp impl) entry1 (blockPartitionOps state);
                 changed = (\<not> equals impl (exitPartition (blockStates pa block)) exit1);
                 states3 = states1(block := state\<lparr>exitPartition := exit1\<rparr>)
             in Inr (pa\<lparr>translator := tr,
                        blockStates := (if changed then flagAll (getSuccessorBlocks fn block) states3
                                        else states3)\<rparr>,
                     anyNeedUpdate \<or> (changed \<and> getSuccessorBlocks fn block \<noteq> []))))"

lemma joinPredecessors_general:
  "joinPredecessors impl states preds (acc, firstPred) =
     (let exits = map (\<lambda>p. exitPartition (states p)) (filter (\<lambda>p. reached (states p)) preds) in
      if exits = [] then (acc, firstPred)
      else if firstPred then (foldl (join impl) (hd exits) (tl exits), False)
      else (foldl (join impl) acc exits, False))"
  by (induction preds arbitrary: acc firstPred) (auto simp: Let_def)

lemma joinPredecessors_eq:
  "joinPredecessors impl states (getPredecessorBlocks fn block) (emptyPartition impl, True) =
     (joinList impl (reachedPredExits fn states block), reachedPredExits fn states block = [])"
  unfolding joinPredecessors_general reachedPredExits_def joinList_def
  by (auto simp: Let_def split: list.splits)

lemma flagAll_Cons:
  "flagAll succs (states(s := (states s)\<lparr>needsUpdate := True\<rparr>)) = flagAll (s # succs) states"
  by (rule ext) (simp add: flagAll_def)

lemma flagSuccessors_eq:
  "flagSuccessors succs (states, anyNeedUpdate) = (flagAll succs states, anyNeedUpdate \<or> succs \<noteq> [])"
proof (induction succs arbitrary: states anyNeedUpdate)
  case Nil
  show ?case by (simp add: flagAll_def)
next
  case (Cons s succs)
  show ?case by (simp only: flagSuccessors.simps Cons.IH flagAll_Cons) simp
qed

lemma ensure_fields:
  "ensureBlockPartitionOpsPopulated fn b tr st = Inr (st', tr') \<Longrightarrow>
   entryPartition st' = entryPartition st \<and> exitPartition st' = exitPartition st"
  by (auto simp: ensureBlockPartitionOpsPopulated_def bindE_def split: if_splits sum.splits)

lemma recompute_eq:
  "recomputeExitFromEntry impl fn b tr st =
     bindE (ensureBlockPartitionOpsPopulated fn b tr st) (\<lambda>(state, tr1).
        Inr (\<not> equals impl (exitPartition st)
                 (foldl (applyOp impl) (entryPartition st) (blockPartitionOps state)),
             state\<lparr>exitPartition := foldl (applyOp impl) (entryPartition st) (blockPartitionOps state)\<rparr>,
             tr1))"
  unfolding recomputeExitFromEntry_def bindE_def
  by (auto split: sum.splits dest: ensure_fields simp: Let_def)


lemma solveBlock_unfold:
  assumes "needsUpdate (blockStates pa block)"
  shows "solveBlock impl fn block (pa, anyNeedUpdate)
         = solveBlockWith True impl fn block (pa, anyNeedUpdate)"
proof -
  define states1 where "states1 = markReached pa block"
  define exits where "exits = reachedPredExits fn states1 block"
  define newEntry where "newEntry = joinList impl exits"
  have s1: "(blockStates pa)
              (block := (blockStates pa block)\<lparr>needsUpdate := False, reached := True\<rparr>) = states1"
    by (simp add: markReached_def states1_def)
  have e1: "entryPartition (states1 block) = entryPartition (blockStates pa block)"
    and x1: "exitPartition (states1 block) = exitPartition (blockStates pa block)"
    by (simp_all add: markReached_def states1_def)
  have jp: "joinPredecessors impl states1 (getPredecessorBlocks fn block) (emptyPartition impl, True)
            = (newEntry, exits = [])"
    by (simp add: joinPredecessors_eq newEntry_def exits_def)
  define entry1 where "entry1 = (if exits = [] then entryPartition (blockStates pa block) else newEntry)"
  define states2 where "states2 = (if exits \<noteq> []
                         then states1(block := (states1 block)\<lparr>entryPartition := newEntry\<rparr>)
                         else states1)"
  have st2: "states2 block = (states1 block)\<lparr>entryPartition := entry1\<rparr>"
    using e1 by (simp add: states2_def entry1_def)
  have upd: "states2(block := st) = states1(block := st)" for st
    by (simp add: states2_def)
  have lhs: "solveBlock impl fn block (pa, anyNeedUpdate) =
      (if exits \<noteq> [] \<and> equals impl newEntry (entryPartition (blockStates pa block))
       then Inr (pa\<lparr>blockStates := states1\<rparr>, anyNeedUpdate)
       else bindE (recomputeExitFromEntry impl fn block (translator pa) (states2 block))
          (\<lambda>(exitUpdated, state, tr).
               let states3 = states2(block := state) in
               if exitUpdated
               then (case flagSuccessors (getSuccessorBlocks fn block) (states3, anyNeedUpdate) of
                       (states4, any4) \<Rightarrow>
                         Inr (pa\<lparr>translator := tr, blockStates := states4\<rparr>, any4))
               else Inr (pa\<lparr>translator := tr, blockStates := states3\<rparr>, anyNeedUpdate)))"
    using assms unfolding solveBlock_def
    by (simp add: s1 jp e1 states2_def Let_def)
  have rhs: "solveBlockWith True impl fn block (pa, anyNeedUpdate) =
      (if exits \<noteq> [] \<and> equals impl newEntry (entryPartition (blockStates pa block))
       then Inr (pa\<lparr>blockStates := states1\<rparr>, anyNeedUpdate)
       else bindE (ensureBlockPartitionOpsPopulated fn block (translator pa)
                 ((states1 block)\<lparr>entryPartition := entry1\<rparr>))
          (\<lambda>(state, tr).
             let exit1 = foldl (applyOp impl) entry1 (blockPartitionOps state);
                 changed = (\<not> equals impl (exitPartition (blockStates pa block)) exit1);
                 states3 = states1(block := state\<lparr>exitPartition := exit1\<rparr>)
             in Inr (pa\<lparr>translator := tr,
                        blockStates := (if changed then flagAll (getSuccessorBlocks fn block) states3
                                        else states3)\<rparr>,
                     anyNeedUpdate \<or> (changed \<and> getSuccessorBlocks fn block \<noteq> []))))"
    unfolding solveBlockWith_def
    by (cases "exits = []")
       (simp_all add: states1_def[symmetric] exits_def[symmetric] newEntry_def[symmetric]
          entry1_def Let_def)
  have rec: "bindE (recomputeExitFromEntry impl fn block (translator pa) (states2 block))
          (\<lambda>(exitUpdated, state, tr).
               let states3 = states2(block := state) in
               if exitUpdated
               then (case flagSuccessors (getSuccessorBlocks fn block) (states3, anyNeedUpdate) of
                       (states4, any4) \<Rightarrow>
                         Inr (pa\<lparr>translator := tr, blockStates := states4\<rparr>, any4))
               else Inr (pa\<lparr>translator := tr, blockStates := states3\<rparr>, anyNeedUpdate))
     = bindE (ensureBlockPartitionOpsPopulated fn block (translator pa)
                 ((states1 block)\<lparr>entryPartition := entry1\<rparr>))
          (\<lambda>(state, tr).
             let exit1 = foldl (applyOp impl) entry1 (blockPartitionOps state);
                 changed = (\<not> equals impl (exitPartition (blockStates pa block)) exit1);
                 states3 = states1(block := state\<lparr>exitPartition := exit1\<rparr>)
             in Inr (pa\<lparr>translator := tr,
                        blockStates := (if changed then flagAll (getSuccessorBlocks fn block) states3
                                        else states3)\<rparr>,
                     anyNeedUpdate \<or> (changed \<and> getSuccessorBlocks fn block \<noteq> [])))"
    unfolding recompute_eq st2
    by (cases "ensureBlockPartitionOpsPopulated fn block (translator pa)
                 ((states1 block)\<lparr>entryPartition := entry1\<rparr>)")
       (auto simp: bindE_def Let_def upd flagSuccessors_eq x1)
  show ?thesis unfolding lhs rhs rec ..
qed


text \<open>
  C2, as amended: on a block flagged \<open>needsUpdate\<close>, the step of \<open>solve\<close> clears the
  flag and marks the block reached; the new entry partition is the join of the exit
  partitions of exactly the reached predecessors; if at least one predecessor is
  reached and the join equals the entry partition by \<open>Partition::equals\<close>, the exit is
  not recomputed and no successor is flagged; otherwise the entry partition becomes
  the join when a predecessor is reached and stays as it is when none is, the exit is
  recomputed from it, and every successor is flagged iff the exit partition changed.
\<close>

theorem solveBlock_step:
  assumes "needsUpdate (blockStates pa block)"
  shows "solveBlock impl fn block (pa, anyNeedUpdate)
         = solveBlockWith True impl fn block (pa, anyNeedUpdate)"
  using assms by (rule solveBlock_unfold)

text \<open>
  A function with one argument \<open>%1\<close> of a type that is not Sendable and one block,
  which returns \<open>%1\<close>; \<open>exArgStart\<close> is the analysis as its constructor leaves it.
\<close>

definition exArgEnv :: SILEnv where
  "exArgEnv = \<lparr>isAddress = (\<lambda>v. False), getUnderlyingObject = (\<lambda>v. v),
            getAccessStorageFromAddr = (\<lambda>v. None),
            definingInstKind = (\<lambda>v. None),
            typeLacksSendable = (\<lambda>v. v = 1)\<rparr>"

definition exArgFn :: SILFunction where
  "exArgFn =
     \<lparr>fnEnv = exArgEnv,
      blockList = [0],
      getEntryBlock = 0,
      blockInstructions = (\<lambda>b.
        if b = 0 then [\<lparr>instId = 10, instKind = ReturnInst, getOperandValues = [1],
                         getResults = [], crossesIsolation = False\<rparr>]
        else []),
      getPredecessorBlocks = (\<lambda>b. []),
      getSuccessorBlocks = (\<lambda>b. []),
      getParent = (\<lambda>i. 0),
      locIsExpr = (\<lambda>i. True),
      getArguments = [1],
      hasSelfParam = False,
      getSelfArgument = 0,
      hasDeclContext = True,
      hasDeferredSendableChecking = True,
      hasSendableProtocol = True\<rparr>"

definition exArgStart :: "Partition PartitionAnalysis" where
  "exArgStart =
     \<lparr>translator = \<lparr>nodeIDMap = [1 \<mapsto> 0], nextNodeID = 1, capturedUIValues = {},
                     currentInstruction = None, translationIndex = 0\<rparr>,
      blockStates =
        (\<lambda>block. newBlockPartitionState specPartition)
          (0 := (newBlockPartitionState specPartition)
                  \<lparr>needsUpdate := True, entryPartition := [([0], False)]\<rparr>),
      raceTracer = newRaceTracer,
      solved = False\<rparr>"

lemma exArgStart_new: "newPartitionAnalysis specPartition exArgFn = Inr exArgStart"
  by (simp add: newPartitionAnalysis_def newTranslator_def exArgFn_def exArgEnv_def
      initCapturedUIValues_def isApplyInst_def getEntryPartition_def getArgIDs_def
      lookupNodeID_def isNonSendable_def simplifyVal_def bindE_def exArgStart_def
      specPartition_def Let_def)

theorem solveBlock_step_witness:
  "needsUpdate (blockStates exArgStart 0)
   \<and> solveBlock specPartition exArgFn 0 (exArgStart, False)
     = solveBlockWith True specPartition exArgFn 0 (exArgStart, False)"
proof -
  have h: "needsUpdate (blockStates exArgStart 0)" by (simp add: exArgStart_def)
  show ?thesis using h solveBlock_step[OF h] by simp
qed


text \<open>
  The claim as the spec states it fails on the entry block of this function: it has no
  predecessor, and the source keeps its entry partition, the region of the argument,
  where the spec would replace it by the join of no partition.
\<close>

theorem solveBlock_entry_counterexample:
  "map_sum id (\<lambda>r. entryPartition (blockStates (fst r) 0))
      (solveBlock specPartition exArgFn 0 (exArgStart, False)) = Inr [([0], False)]
   \<and> map_sum id (\<lambda>r. entryPartition (blockStates (fst r) 0))
      (solveBlockWith False specPartition exArgFn 0 (exArgStart, False)) = Inr []
   \<and> solveBlock specPartition exArgFn 0 (exArgStart, False)
     \<noteq> solveBlockWith False specPartition exArgFn 0 (exArgStart, False)"
proof -
  have a: "map_sum id (\<lambda>r. entryPartition (blockStates (fst r) 0))
      (solveBlock specPartition exArgFn 0 (exArgStart, False)) = Inr [([0], False)]"
    by code_simp
  have b: "map_sum id (\<lambda>r. entryPartition (blockStates (fst r) 0))
      (solveBlockWith False specPartition exArgFn 0 (exArgStart, False)) = Inr []"
    by code_simp
  from a b have "solveBlock specPartition exArgFn 0 (exArgStart, False)
     \<noteq> solveBlockWith False specPartition exArgFn 0 (exArgStart, False)"
    by auto
  with a b show ?thesis by blast
qed


section \<open>The local reason of a consumption\<close>

text \<open>
  The reason that \<open>findLocalConsumedReason\<close> looks for, said without the loop.
  \<open>statesAfter\<close> lists the working partitions after each operation. The surviving
  candidate is the operation that starts the last run of operations after each of
  which the value is consumed, up to the end of the walk; there is none when the walk
  is empty or the value is not consumed at its end. \<open>localConsumedReason\<close> is the
  answer for a block, a value and a target: the walk starts at the entry partition,
  after an \<open>AssignFresh\<close> of the value when it is consumed there, and ends before the
  target, when one is given. \<open>exitCacheOk\<close> says that the cache of the tracer holds
  answers of this kind only.
\<close>

fun statesAfter :: "'p PartitionImpl \<Rightarrow> 'p \<Rightarrow> PartitionOp list \<Rightarrow> 'p list" where
  "statesAfter impl P [] = []"
| "statesAfter impl P (op # ops) = applyOp impl P op # statesAfter impl (applyOp impl P op) ops"

definition survivingCandidate ::
  "'p PartitionImpl \<Rightarrow> nat \<Rightarrow> 'p \<Rightarrow> PartitionOp list \<Rightarrow> PartitionOp option" where
  "survivingCandidate impl v P ops =
     (let consumedAfter = map (\<lambda>S. isConsumed impl S v) (statesAfter impl P ops);
          run = length (takeWhile id (rev consumedAfter))
      in if run = 0 then None else Some (ops ! (length ops - run)))"

definition reasonOfCandidate :: "PartitionOp \<Rightarrow> LocalConsumedReason" where
  "reasonOfCandidate op =
     (if getKind op = ConsumeKind then LocalConsumeInst op else LocalNonConsumeInst)"

definition localConsumedReason ::
  "'p PartitionImpl \<Rightarrow> (nat \<Rightarrow> 'p BlockPartitionState) \<Rightarrow> nat \<Rightarrow> nat \<Rightarrow> PartitionOp option
   \<Rightarrow> error + LocalConsumedReason" where
  "localConsumedReason impl states SILBlock v targetOp =
     (let block = states SILBlock;
          entry = entryPartition block;
          working = (if isConsumed impl entry v then applyOp impl entry (AssignFresh v None)
                     else entry);
          walked = (case targetOp of
                      None \<Rightarrow> blockPartitionOps block
                    | Some t \<Rightarrow> takeWhile (\<lambda>op. op \<noteq> t) (blockPartitionOps block))
      in if targetOp = None \<and> \<not> isConsumed impl (exitPartition block) v then Inl AssertionFailure
         else case survivingCandidate impl v working walked of
                Some op \<Rightarrow> Inr (reasonOfCandidate op)
              | None \<Rightarrow> if isConsumed impl entry v then Inr NonLocal else Inl AssertionFailure)"

definition exitCacheOk ::
  "'p PartitionImpl \<Rightarrow> (nat \<Rightarrow> 'p BlockPartitionState) \<Rightarrow> RaceTracer \<Rightarrow> bool" where
  "exitCacheOk impl states rt =
     (\<forall>b v r. consumedAtExitReasons rt (b, v) = Some r \<longrightarrow>
               localConsumedReason impl states b v None = Inr r)"

lemma statesAfter_append:
  "statesAfter impl P (xs @ ys) = statesAfter impl P xs @ statesAfter impl (foldl (applyOp impl) P xs) ys"
  by (induction xs arbitrary: P) simp_all

lemma length_statesAfter: "length (statesAfter impl P ops) = length ops"
  by (induction ops arbitrary: P) simp_all

lemma walk_target:
  "walkPartitionOps impl v (Some t) ops acc
   = walkPartitionOps impl v None (takeWhile (\<lambda>op. op \<noteq> t) ops) acc"
  by (induction ops arbitrary: acc) (auto simp: Let_def split: prod.splits)

lemma walk_append:
  "walkPartitionOps impl v None (xs @ ys) acc
   = walkPartitionOps impl v None ys (walkPartitionOps impl v None xs acc)"
  by (induction xs arbitrary: acc) (auto simp: Let_def split: prod.splits)

lemma walk_fst:
  "fst (walkPartitionOps impl v None ops (P, r)) = foldl (applyOp impl) P ops"
  by (induction ops arbitrary: P r) (auto simp: Let_def)

lemma survivingCandidate_snoc:
  "survivingCandidate impl v P (xs @ [x]) =
     (if \<not> isConsumed impl (applyOp impl (foldl (applyOp impl) P xs) x) v then None
      else case survivingCandidate impl v P xs of None \<Rightarrow> Some x | Some c \<Rightarrow> Some c)"
proof -
  define run where
    "run = length (takeWhile id (rev (map (\<lambda>S. isConsumed impl S v) (statesAfter impl P xs))))"
  have le: "run \<le> length xs"
    unfolding run_def
    using length_takeWhile_le[of id "rev (map (\<lambda>S. isConsumed impl S v) (statesAfter impl P xs))"]
    by (simp add: length_statesAfter)
  have old: "survivingCandidate impl v P xs = (if run = 0 then None else Some (xs ! (length xs - run)))"
    by (simp add: survivingCandidate_def run_def Let_def)
  show ?thesis
  proof (cases "isConsumed impl (applyOp impl (foldl (applyOp impl) P xs) x) v")
    case False
    then show ?thesis by (simp add: survivingCandidate_def statesAfter_append)
  next
    case True
    then have new: "survivingCandidate impl v P (xs @ [x]) = Some ((xs @ [x]) ! (Suc (length xs) - Suc run))"
      by (simp add: survivingCandidate_def statesAfter_append Let_def run_def)
    show ?thesis
    proof (cases "run = 0")
      case z: True
      then show ?thesis using True new old by simp
    next
      case nz: False
      then have "length xs - run < length xs" using le by arith
      then have "(xs @ [x]) ! (length xs - run) = xs ! (length xs - run)"
        by (simp add: nth_append)
      then show ?thesis using True nz new old by simp
    qed
  qed
qed

lemma walk_candidate:
  "snd (walkPartitionOps impl v None ops (P, None))
   = map_option reasonOfCandidate (survivingCandidate impl v P ops)"
proof (induction ops rule: rev_induct)
  case Nil
  show ?case by (simp add: survivingCandidate_def)
next
  case (snoc x xs)
  obtain S r where w: "walkPartitionOps impl v None xs (P, None) = (S, r)" by (cases "walkPartitionOps impl v None xs (P, None)")
  have S: "S = foldl (applyOp impl) P xs" using walk_fst[of impl v xs P None] w by simp
  have r: "r = map_option reasonOfCandidate (survivingCandidate impl v P xs)"
    using snoc w by simp
  show ?case
    unfolding walk_append w survivingCandidate_snoc
    by (auto simp: Let_def S[symmetric] r reasonOfCandidate_def split: option.splits)
qed

lemma walked_eq:
  "snd (walkPartitionOps impl v targetOp ops (P, None))
   = map_option reasonOfCandidate
       (survivingCandidate impl v P
          (case targetOp of None \<Rightarrow> ops | Some t \<Rightarrow> takeWhile (\<lambda>op. op \<noteq> t) ops))"
  by (cases targetOp) (simp_all add: walk_target walk_candidate)

lemma findLocal_uncached:
  assumes "(if targetOp = None then consumedAtExitReasons rt (SILBlock, v) else None) = None"
  shows "findLocalConsumedReason impl states rt SILBlock v targetOp =
     (case localConsumedReason impl states SILBlock v targetOp of
        Inl e \<Rightarrow> Inl e
      | Inr reason \<Rightarrow>
          Inr (reason,
               if targetOp = None
               then rt\<lparr>consumedAtExitReasons := (consumedAtExitReasons rt)((SILBlock, v) \<mapsto> reason)\<rparr>
               else rt))"
  unfolding findLocalConsumedReason_def localConsumedReason_def assms
  by (simp add: walked_eq Let_def split: option.splits)

lemma survivingCandidate_None_iff:
  "survivingCandidate impl v P ops = None
   \<longleftrightarrow> ops = [] \<or> \<not> isConsumed impl (foldl (applyOp impl) P ops) v"
proof (cases ops rule: rev_cases)
  case Nil
  then show ?thesis by (simp add: survivingCandidate_def)
next
  case (snoc xs x)
  then show ?thesis by (simp add: survivingCandidate_snoc split: option.splits)
qed

definition startsFinalRun :: "'p PartitionImpl \<Rightarrow> nat \<Rightarrow> 'p \<Rightarrow> PartitionOp list \<Rightarrow> nat \<Rightarrow> bool" where
  "startsFinalRun impl v P ops j =
     (j < length ops
      \<and> (\<forall>i. j < i \<and> i \<le> length ops \<longrightarrow> isConsumed impl (foldl (applyOp impl) P (take i ops)) v)
      \<and> (j = 0 \<or> \<not> isConsumed impl (foldl (applyOp impl) P (take j ops)) v))"

lemma survivingCandidate_Some_iff:
  "survivingCandidate impl v P ops = Some c
   \<longleftrightarrow> (\<exists>j. startsFinalRun impl v P ops j \<and> c = ops ! j)"
proof (induction ops arbitrary: c rule: rev_induct)
  case Nil
  show ?case by (simp add: survivingCandidate_def startsFinalRun_def)
next
  case (snoc x xs)
  let ?n = "length xs"
  let ?c' = "isConsumed impl (applyOp impl (foldl (applyOp impl) P xs) x) v"
  have run_old: "startsFinalRun impl v P (xs @ [x]) j \<longleftrightarrow> ?c' \<and> startsFinalRun impl v P xs j"
    if "j < ?n" for j
  proof -
    have "(\<forall>i. j < i \<and> i \<le> Suc ?n \<longrightarrow> isConsumed impl (foldl (applyOp impl) P (take i (xs @ [x]))) v)
      \<longleftrightarrow> ?c' \<and> (\<forall>i. j < i \<and> i \<le> ?n \<longrightarrow> isConsumed impl (foldl (applyOp impl) P (take i xs)) v)"
      (is "?L \<longleftrightarrow> ?R")
    proof
      assume L: ?L
      have "?c'" using L[rule_format, of "Suc ?n"] that by simp
      moreover have "\<forall>i. j < i \<and> i \<le> ?n \<longrightarrow> isConsumed impl (foldl (applyOp impl) P (take i xs)) v"
        using L by (auto simp: le_Suc_eq)
      ultimately show ?R by simp
    next
      assume R: ?R
      show ?L
      proof (intro allI impI)
        fix i assume "j < i \<and> i \<le> Suc ?n"
        then show "isConsumed impl (foldl (applyOp impl) P (take i (xs @ [x]))) v"
          using R by (cases "i = Suc ?n") auto
      qed
    qed
    then show ?thesis using that by (simp add: startsFinalRun_def)
  qed
  have run_new: "startsFinalRun impl v P (xs @ [x]) ?n
      \<longleftrightarrow> ?c' \<and> (xs = [] \<or> \<not> isConsumed impl (foldl (applyOp impl) P xs) v)"
    by (auto simp: startsFinalRun_def le_Suc_eq)
  have bound: "startsFinalRun impl v P (xs @ [x]) j \<Longrightarrow> j \<le> ?n" for j
    by (simp add: startsFinalRun_def)
  show ?case
  proof (cases ?c')
    case False
    then show ?thesis using run_old run_new bound
      by (auto simp: survivingCandidate_snoc le_less)
  next
    case True
    show ?thesis
    proof (cases "survivingCandidate impl v P xs")
      case None
      then have no: "xs = [] \<or> \<not> isConsumed impl (foldl (applyOp impl) P xs) v"
        by (simp add: survivingCandidate_None_iff)
      have none: "\<not> startsFinalRun impl v P xs j" for j
        using snoc[of "xs ! j"] None by auto
      have "startsFinalRun impl v P (xs @ [x]) j \<longleftrightarrow> j = ?n" for j
        using run_old[of j] run_new bound[of j] none[of j] True no by (cases "j < ?n") auto
      then show ?thesis using True None by (auto simp: survivingCandidate_snoc)
    next
      case (Some c0)
      then obtain j0 where j0: "startsFinalRun impl v P xs j0" "c0 = xs ! j0"
        using snoc[of c0] by auto
      then have j0n: "j0 < ?n" by (simp add: startsFinalRun_def)
      have cn: "isConsumed impl (foldl (applyOp impl) P xs) v" "xs \<noteq> []"
        using Some survivingCandidate_None_iff[of impl v P xs] by auto
      have notn: "\<not> startsFinalRun impl v P (xs @ [x]) ?n" using run_new cn by simp
      have eqv: "startsFinalRun impl v P (xs @ [x]) j \<longleftrightarrow> startsFinalRun impl v P xs j" for j
      proof (cases "j < ?n")
        case True
        then show ?thesis using run_old[OF True] \<open>?c'\<close> by simp
      next
        case False
        then have "\<not> startsFinalRun impl v P xs j" by (simp add: startsFinalRun_def)
        moreover have "\<not> startsFinalRun impl v P (xs @ [x]) j"
        proof
          assume a: "startsFinalRun impl v P (xs @ [x]) j"
          then have "j = ?n" using bound[OF a] False by simp
          then show False using a notn by simp
        qed
        ultimately show ?thesis by simp
      qed
      have val: "xs ! j = c0" if "startsFinalRun impl v P xs j" for j
      proof -
        have "survivingCandidate impl v P xs = Some (xs ! j)"
          using snoc[of "xs ! j"] that by blast
        then show ?thesis using Some by simp
      qed
      have nth: "(xs @ [x]) ! j = xs ! j" if "startsFinalRun impl v P xs j" for j
        using that by (simp add: startsFinalRun_def nth_append)
      have lhs: "survivingCandidate impl v P (xs @ [x]) = Some c0"
        using True Some by (simp add: survivingCandidate_snoc)
      show ?thesis
      proof
        assume "survivingCandidate impl v P (xs @ [x]) = Some c"
        then have "c = c0" using lhs by simp
        then have "startsFinalRun impl v P (xs @ [x]) j0 \<and> c = (xs @ [x]) ! j0"
          using j0 eqv[of j0] nth[of j0] by simp
        then show "\<exists>j. startsFinalRun impl v P (xs @ [x]) j \<and> c = (xs @ [x]) ! j" ..
      next
        assume "\<exists>j. startsFinalRun impl v P (xs @ [x]) j \<and> c = (xs @ [x]) ! j"
        then obtain j where j: "startsFinalRun impl v P (xs @ [x]) j" "c = (xs @ [x]) ! j" by blast
        then have "startsFinalRun impl v P xs j" using eqv by simp
        then have "c = c0" using j(2) val nth by simp
        then show "survivingCandidate impl v P (xs @ [x]) = Some c" using lhs by simp
      qed
    qed
  qed
qed


text \<open>
  C4: \<open>findLocalConsumedReason\<close> replays the operations of the block over a working
  partition seeded from the entry partition, after a synthetic \<open>AssignFresh(v)\<close> when
  \<open>v\<close> is consumed at entry; the candidate is set at an operation after which \<open>v\<close>
  becomes consumed and cleared at one after which it is not; the walk stops before the
  target operation when one is given. The result is \<open>LocalConsumeInst(op)\<close> when the
  surviving candidate \<open>op\<close> is a \<open>Consume\<close>, \<open>LocalNonConsumeInst\<close> when it is another
  operation, \<open>NonLocal\<close> when none survives and \<open>v\<close> is consumed at entry, and a failed
  assertion otherwise. The cache of the answers at block exits is read and written,
  and nothing else of the tracer.
\<close>

theorem findLocalConsumedReason_result:
  assumes "exitCacheOk impl states rt"
  shows "map_sum id fst (findLocalConsumedReason impl states rt SILBlock v targetOp)
           = localConsumedReason impl states SILBlock v targetOp
    \<and> (\<forall>r rt'. findLocalConsumedReason impl states rt SILBlock v targetOp = Inr (r, rt') \<longrightarrow>
           exitCacheOk impl states rt'
           \<and> consumedAtEntryReasons rt' = consumedAtEntryReasons rt
           \<and> accumulator rt' = accumulator rt)"
proof (cases "if targetOp = None then consumedAtExitReasons rt (SILBlock, v) else None")
  case None
  show ?thesis
    unfolding findLocal_uncached[OF None]
    using assms
    by (auto simp: exitCacheOk_def split: sum.splits)
next
  case (Some cached)
  then have t: "targetOp = None" and c: "consumedAtExitReasons rt (SILBlock, v) = Some cached"
    by (auto split: if_splits)
  have r: "localConsumedReason impl states SILBlock v None = Inr cached"
    using assms c by (simp add: exitCacheOk_def)
  have f: "findLocalConsumedReason impl states rt SILBlock v None = Inr (cached, rt)"
    by (simp add: findLocalConsumedReason_def c)
  show ?thesis using assms unfolding t f r by simp
qed

definition exDiamondStates :: "nat \<Rightarrow> Partition BlockPartitionState" where
  "exDiamondStates b =
     (if b = 0 then
        \<lparr>needsUpdate = False, reached = True, entryPartition = [],
         exitPartition = [([0], False)], blockPartitionOpsPopulated = True,
         blockPartitionOps = [AssignFresh 0 (Some 10)]\<rparr>
      else if b = 1 then
        \<lparr>needsUpdate = False, reached = True, entryPartition = [([0], False)],
         exitPartition = [([0], True)], blockPartitionOpsPopulated = True,
         blockPartitionOps = [Consume 0 (Some 11)]\<rparr>
      else if b = 2 then
        \<lparr>needsUpdate = False, reached = True, entryPartition = [([0], False)],
         exitPartition = [([0], False)], blockPartitionOpsPopulated = True,
         blockPartitionOps = []\<rparr>
      else if b = 3 then
        \<lparr>needsUpdate = False, reached = True, entryPartition = [([0], True)],
         exitPartition = [([0], True)], blockPartitionOpsPopulated = True,
         blockPartitionOps = [Require 0 (Some 13)]\<rparr>
      else newBlockPartitionState specPartition)"

lemma exDiamond_solved:
  "map_option (map_sum id (\<lambda>pa. map (blockStates pa) [0, 1, 2, 3]))
     (bindR (Some (newPartitionAnalysis specPartition exDiamond)) (solve 10 specPartition exDiamond))
   = Some (Inr (map exDiamondStates [0, 1, 2, 3]))"
  by code_simp

lemma exCandidate_reassigned:
  "survivingCandidate specPartition 0 []
     [AssignFresh 0 (Some 1), Consume 0 (Some 2), AssignFresh 0 (Some 3), AssignFresh 1 (Some 4),
      Consume 1 (Some 5), Assign 0 1 (Some 6), Require 0 (Some 7)]
   = Some (Assign 0 1 (Some 6))"
  by code_simp

theorem findLocalConsumedReason_result_witness:
  "exitCacheOk specPartition exDiamondStates newRaceTracer
   \<and> map_sum id fst (findLocalConsumedReason specPartition exDiamondStates newRaceTracer 1 0 None)
       = Inr (LocalConsumeInst (Consume 0 (Some 11)))
   \<and> map_sum id fst (findLocalConsumedReason specPartition exDiamondStates newRaceTracer 3 0
                       (Some (Require 0 (Some 13))))
       = Inr NonLocal"
proof -
  have h: "exitCacheOk specPartition exDiamondStates newRaceTracer"
    by (simp add: exitCacheOk_def newRaceTracer_def)
  have a: "localConsumedReason specPartition exDiamondStates 1 0 None
           = Inr (LocalConsumeInst (Consume 0 (Some 11)))"
    by code_simp
  have b: "localConsumedReason specPartition exDiamondStates 3 0 (Some (Require 0 (Some 13)))
           = Inr NonLocal"
    by code_simp
  show ?thesis
    using h findLocalConsumedReason_result[OF h, of 1 0 None]
      findLocalConsumedReason_result[OF h, of 3 0 "Some (Require 0 (Some 13))"]
    unfolding a b by blast
qed


section \<open>The diagnose phase\<close>










definition accKeysOk :: "PartitionOp ConsumeRequireAccumulator \<Rightarrow> bool" where
  "accKeysOk acc = (\<forall>e \<in> set acc. getKind (fst e) = ConsumeKind)"






text \<open>
  \<open>argRegionDiagnostics ops\<close> are the diagnostics \<open>arg_region_consumed\<close> at the
  instructions of the \<open>Consume\<close> operations among \<open>ops\<close>. \<open>reportOfCall\<close> is the
  diagnostic that \<open>diagnose\<close> emits for a call of \<open>forEachConsumeRequire\<close>. \<open>routed\<close>
  is the invariant of the loops of \<open>diagnose\<close> over blocks and operations.
\<close>

definition argRegionDiagnostics :: "PartitionOp set \<Rightarrow> Diagnostic set" where
  "argRegionDiagnostics ops =
     {d. \<exists>op i. op \<in> ops \<and> getKind op = ConsumeKind \<and> getSourceInst op = Some i
              \<and> d = arg_region_consumed i}"


definition routed :: "PartitionOp set \<Rightarrow> Diagnostic list \<Rightarrow> RaceTracer \<times> Diagnostic list \<Rightarrow> bool" where
  "routed ops diags0 s =
     (accKeysOk (accumulator (fst s))
      \<and> (\<exists>D. snd s = diags0 @ D \<and> set D \<subseteq> argRegionDiagnostics ops))"

lemma argRegionDiagnostics_mono: "A \<subseteq> B \<Longrightarrow> argRegionDiagnostics A \<subseteq> argRegionDiagnostics B"
  by (auto simp: argRegionDiagnostics_def)

lemma routed_mono: "routed A d0 s \<Longrightarrow> A \<subseteq> B \<Longrightarrow> routed B d0 s"
  using argRegionDiagnostics_mono[of A B] by (auto simp: routed_def)









text \<open>
  The analysis of the function with a race, after \<open>solve\<close>.
\<close>

definition exDiamondSolved :: "Partition PartitionAnalysis" where
  "exDiamondSolved =
     \<lparr>translator = \<lparr>nodeIDMap = [1 \<mapsto> 0], nextNodeID = 1, capturedUIValues = {},
                     currentInstruction = Some 13, translationIndex = 3\<rparr>,
      blockStates = exDiamondStates,
      raceTracer = newRaceTracer,
      solved = True\<rparr>"

lemma exDiamondSolved_translator:
  "map_option (map_sum id (\<lambda>pa. (map (nodeIDMap (translator pa)) [0, 1, 2, 3], nextNodeID (translator pa),
        currentInstruction (translator pa), translationIndex (translator pa), solved pa)))
     (bindR (Some (newPartitionAnalysis specPartition exDiamond)) (solve 10 specPartition exDiamond))
   = Some (Inr (map (nodeIDMap (translator exDiamondSolved)) [0, 1, 2, 3], 1, Some 13, 3, True))"
  by code_simp




section \<open>Termination\<close>



























































































end
